theory Spec2Isabelle
  imports Complex_Main
begin

section \<open>The hero mini-game of script.js: data model\<close>

text \<open>
  The script is one closure over module-level variables, DOM handlers and timers. The
  embedding turns the variables into one record, every handler into a function from state
  to state, and the host's scheduler into a list of events.

  JavaScript numbers are doubles. Score, combo and the countdown only ever hold small
  integers and are modelled as \<open>int\<close>; clock readings, coordinates and velocities are
  modelled as \<open>real\<close>. The general statements below use comparison, \<open>abs\<close>,
  negation and assignment of these values, which are exact on doubles; the sums and
  products of the position update and of \<open>rand\<close> enter them as values that are only
  compared. The concrete examples are chosen so that rounding cannot change a branch.
  Not-a-number does not arise: the measured sizes and the clock readings are finite.
\<close>

subsection \<open>Settings (script.js, lines 17--22)\<close>

definition ROUND_SECONDS :: int where "ROUND_SECONDS = 20"
definition ORB_COUNT :: nat where "ORB_COUNT = 6"
definition BASE_POINTS :: int where "BASE_POINTS = 10"
definition COMBO_WINDOW_MS :: real where "COMBO_WINDOW_MS = 800"
definition SPEED_MIN :: real where "SPEED_MIN = 40"
definition SPEED_MAX :: real where "SPEED_MAX = 140"

subsection \<open>Orbs and the module state (lines 26--38, 67)\<close>

text \<open>
  An orb object \<open>{ el, x, y, vx, vy, alive }\<close>. Objects have reference identity
  (\<open>orbs.indexOf(orb)\<close> compares references, closures keep an orb after it left the
  array), so orbs live in a store indexed by references; the element \<open>el\<close> of an orb is
  identified with the orb's reference.
\<close>

type_synonym ref = nat

record orb =
  x :: real
  y :: real
  vx :: real
  vy :: real
  alive :: bool

text \<open>
  The module variables, followed by the parts of the host the handlers act on:
  \<^item> \<open>prefersReduced\<close>: the media query read once at line 24;
  \<^item> \<open>raf\<close>: a frame callback is requested (the handle is non-null and not cancelled);
  \<^item> \<open>timerId\<close>: the countdown interval is installed;
  \<^item> \<open>store\<close>, \<open>next_ref\<close>: the orb objects and the next unused reference;
  \<^item> \<open>area\<close>: the orb elements that are children of the game area, in document order;
  \<^item> \<open>pending\<close>: the orbs whose respawn timeout (line 110) is scheduled and has not
    fired; nothing in the script cancels such a timeout;
  \<^item> \<open>playBtn_disabled\<close>: the start control's \<open>disabled\<close> attribute;
  \<^item> \<open>storage\<close>: the value kept under the key \<open>jk_best_score\<close>, if any; only this
    script writes it, so it is a decimal integer.
  Text contents and the transient \<open>.combo\<close> callouts only display values and are left out.
\<close>

record game =
  prefersReduced :: bool
  score :: int
  best :: int
  timeLeft :: int
  running :: bool
  lastHitTime :: real
  combo :: int
  orbs :: "ref list"
  raf :: bool
  lastTs :: "real option"
  timerId :: bool
  bounds_w :: real
  bounds_h :: real
  store :: "ref \<Rightarrow> orb option"
  next_ref :: ref
  area :: "ref list"
  pending :: "ref list"
  playBtn_disabled :: bool
  storage :: "int option"

text \<open>
  One \<open>makeOrb\<close> call reads \<open>Math.random()\<close> for the left offset, the top offset, the
  speed (unless reduced motion is preferred) and the angle; each reading lies in [0, 1).
\<close>

record draw =
  u_left :: real
  u_top :: real
  u_speed :: real
  u_angle :: real

definition unit_draw :: "draw \<Rightarrow> bool" where
  "unit_draw d \<longleftrightarrow>
     0 \<le> u_left d \<and> u_left d < 1 \<and> 0 \<le> u_top d \<and> u_top d < 1 \<and>
     0 \<le> u_speed d \<and> u_speed d < 1 \<and> 0 \<le> u_angle d \<and> u_angle d < 1"

section \<open>The functions of the script\<close>

subsection \<open>Utilities (lines 43--51)\<close>

definition clamp :: "real \<Rightarrow> real \<Rightarrow> real \<Rightarrow> real" where
  "clamp v lo hi = max lo (min hi v)"

definition rand :: "real \<Rightarrow> real \<Rightarrow> real \<Rightarrow> real" where
  \<comment> \<open>\<open>rand(min, max)\<close> with the reading \<open>u\<close> of \<open>Math.random()\<close>\<close>
  "rand lo hi u = u * (hi - lo) + lo"

definition measure_area :: "real \<Rightarrow> real \<Rightarrow> game \<Rightarrow> game" where
  \<comment> \<open>\<open>measure()\<close> (the name \<open>measure\<close> is taken in HOL); \<open>w\<close> and \<open>h\<close> are the
      size of the rectangle the host reports\<close>
  "measure_area w h s = s\<lparr>bounds_w := w, bounds_h := h\<rparr>"

subsection \<open>Spawning (lines 53--78)\<close>

text \<open>
  \<open>makeOrb\<close> writes the random offsets into the element's style and reads them back with
  \<open>parseFloat\<close>; the model takes the number read back to be the number written.
\<close>

definition new_orb :: "bool \<Rightarrow> real \<Rightarrow> real \<Rightarrow> draw \<Rightarrow> orb" where
  \<comment> \<open>lines 58--67: the object built from the readings, for the measured bounds\<close>
  "new_orb pr w h d =
     (let left = rand 20 (w - 20) (u_left d);
          top = rand 20 (h - 20) (u_top d);
          speed = (if pr then 0 else rand SPEED_MIN SPEED_MAX (u_speed d));
          angle = rand 0 (pi * 2) (u_angle d)
      in \<lparr>x = left, y = top, vx = cos angle * speed, vy = sin angle * speed, alive = True\<rparr>)"

definition makeOrb :: "draw \<Rightarrow> game \<Rightarrow> ref \<times> game" where
  "makeOrb d s =
     (let ob = new_orb (prefersReduced s) (bounds_w s) (bounds_h s) d;
          r = next_ref s
      in (r, s\<lparr>store := (store s)(r \<mapsto> ob), next_ref := Suc r, area := area s @ [r]\<rparr>))"

definition push_orb :: "draw \<Rightarrow> game \<Rightarrow> game" where
  \<comment> \<open>\<open>orbs.push(makeOrb())\<close>\<close>
  "push_orb d s = (case makeOrb d s of (r, s') \<Rightarrow> s'\<lparr>orbs := orbs s' @ [r]\<rparr>)"

definition spawnOrbs :: "nat \<Rightarrow> (nat \<Rightarrow> draw) \<Rightarrow> game \<Rightarrow> game" where
  \<comment> \<open>iteration \<open>i\<close> of the loop uses the readings \<open>ds i\<close>\<close>
  "spawnOrbs n ds s = fold (\<lambda>i. push_orb (ds i)) [0..<n] s"

subsection \<open>Hits (lines 80--118)\<close>

definition hitOrb :: "ref \<Rightarrow> real \<Rightarrow> game \<Rightarrow> game" where
  \<comment> \<open>\<open>t\<close> is the reading of \<open>performance.now()\<close> at line 84\<close>
  "hitOrb r t s =
     (case store s r of
        None \<Rightarrow> s
      | Some ob \<Rightarrow>
          if \<not> running s \<or> \<not> alive ob then s
          else
            let c = (if t - lastHitTime s \<le> COMBO_WINDOW_MS then combo s + 1 else 0);
                points = BASE_POINTS * (1 + min c 5)
            in s\<lparr>combo := c, lastHitTime := t, score := score s + points,
                 store := (store s)(r \<mapsto> ob\<lparr>alive := False\<rparr>),
                 pending := pending s @ [r]\<rparr>)"

definition respawn :: "ref \<Rightarrow> draw \<Rightarrow> game \<Rightarrow> game" where
  \<comment> \<open>the timeout callback of lines 110--117, for the orb \<open>r\<close> it closes over\<close>
  "respawn r d s =
     (if \<not> running s then s
      else push_orb d (s\<lparr>area := removeAll r (area s), orbs := remove1 r (orbs s)\<rparr>))"

subsection \<open>The frame update (lines 120--144)\<close>

definition bounce_left :: "orb \<Rightarrow> orb" where
  "bounce_left ob = (if x ob < 12 then ob\<lparr>x := 12, vx := \<bar>vx ob\<bar>\<rparr> else ob)"

definition bounce_top :: "orb \<Rightarrow> orb" where
  "bounce_top ob = (if y ob < 12 then ob\<lparr>y := 12, vy := \<bar>vy ob\<bar>\<rparr> else ob)"

definition bounce_right :: "real \<Rightarrow> orb \<Rightarrow> orb" where
  "bounce_right w ob = (if x ob > w - 12 then ob\<lparr>x := w - 12, vx := - \<bar>vx ob\<bar>\<rparr> else ob)"

definition bounce_bottom :: "real \<Rightarrow> orb \<Rightarrow> orb" where
  "bounce_bottom h ob = (if y ob > h - 12 then ob\<lparr>y := h - 12, vy := - \<bar>vy ob\<bar>\<rparr> else ob)"

definition bounce :: "real \<Rightarrow> real \<Rightarrow> orb \<Rightarrow> orb" where
  \<comment> \<open>the four statements of lines 133--136, in their order\<close>
  "bounce w h ob = bounce_bottom h (bounce_right w (bounce_top (bounce_left ob)))"

definition integrate :: "real \<Rightarrow> orb \<Rightarrow> orb" where
  \<comment> \<open>lines 129--130\<close>
  "integrate dt ob = ob\<lparr>x := x ob + vx ob * dt, y := y ob + vy ob * dt\<rparr>"

definition step_orb :: "real \<Rightarrow> real \<Rightarrow> real \<Rightarrow> orb \<Rightarrow> orb" where
  \<comment> \<open>the loop body of lines 128--136\<close>
  "step_orb w h dt ob = (if \<not> alive ob then ob else bounce w h (integrate dt ob))"

definition update_at :: "(orb \<Rightarrow> orb) \<Rightarrow> ref \<Rightarrow> (ref \<Rightarrow> orb option) \<Rightarrow> (ref \<Rightarrow> orb option)" where
  \<comment> \<open>in-place mutation of the object behind one reference\<close>
  "update_at f r st = (case st r of None \<Rightarrow> st | Some ob \<Rightarrow> st(r \<mapsto> f ob))"

definition frame_dt :: "real \<Rightarrow> real option \<Rightarrow> real" where
  \<comment> \<open>lines 122--123: the capped time step in seconds\<close>
  "frame_dt ts lt = min 0.032 ((ts - (case lt of None \<Rightarrow> ts | Some l \<Rightarrow> l)) / 1000)"

definition step :: "real \<Rightarrow> game \<Rightarrow> game" where
  "step ts s =
     (if \<not> running s then s
      else
        let dt = frame_dt ts (lastTs s)
        in s\<lparr>lastTs := Some ts,
             store := fold (update_at (step_orb (bounds_w s) (bounds_h s) dt)) (orbs s) (store s),
             raf := True\<rparr>)"

subsection \<open>Round control (lines 146--206)\<close>

definition clearGame :: "game \<Rightarrow> game" where
  "clearGame s =
     s\<lparr>raf := False, lastTs := None, timerId := False,
       area := fold removeAll (orbs s) (area s), orbs := []\<rparr>"

definition startTimer :: "game \<Rightarrow> game" where
  "startTimer s = s\<lparr>timeLeft := ROUND_SECONDS, timerId := True\<rparr>"

definition startGame :: "real \<Rightarrow> real \<Rightarrow> (nat \<Rightarrow> draw) \<Rightarrow> game \<Rightarrow> game" where
  "startGame w h ds s =
     (let s1 = clearGame (measure_area w h s);
          s2 = s1\<lparr>running := True, score := 0, combo := 0, lastHitTime := 0,
                  playBtn_disabled := True\<rparr>;
          s3 = startTimer (spawnOrbs ORB_COUNT ds s2)
      in s3\<lparr>raf := True\<rparr>)"

definition endGame :: "game \<Rightarrow> game" where
  "endGame s =
     (let s1 = (clearGame (s\<lparr>running := False\<rparr>))\<lparr>playBtn_disabled := False\<rparr>
      in if score s1 > best s1
         then s1\<lparr>best := score s1, storage := Some (score s1)\<rparr>
         else s1)"

definition tick :: "game \<Rightarrow> game" where
  \<comment> \<open>the interval callback of lines 149--155\<close>
  "tick s =
     (let s1 = s\<lparr>timeLeft := timeLeft s - 1\<rparr>
      in if timeLeft s1 \<le> 0 then endGame s1 else s1)"

subsection \<open>Resize (lines 210--217) and the initial state\<close>

definition clamp_orb :: "real \<Rightarrow> real \<Rightarrow> orb \<Rightarrow> orb" where
  "clamp_orb w h ob = ob\<lparr>x := clamp (x ob) 12 (w - 12), y := clamp (y ob) 12 (h - 12)\<rparr>"

definition resize :: "real \<Rightarrow> real \<Rightarrow> game \<Rightarrow> game" where
  "resize w h s =
     (let s1 = measure_area w h s
      in s1\<lparr>store := fold (update_at (clamp_orb (bounds_w s1) (bounds_h s1))) (orbs s1) (store s1)\<rparr>)"

definition init :: "bool \<Rightarrow> int option \<Rightarrow> real \<Rightarrow> real \<Rightarrow> game" where
  \<comment> \<open>the state once the script has run: lines 24--38 and the measure of line 228\<close>
  "init pr st w h =
     \<lparr>prefersReduced = pr, score = 0, best = (case st of None \<Rightarrow> 0 | Some b \<Rightarrow> b),
      timeLeft = ROUND_SECONDS, running = False, lastHitTime = 0, combo = 0, orbs = [],
      raf = False, lastTs = None, timerId = False, bounds_w = w, bounds_h = h,
      store = Map.empty, next_ref = 0, area = [], pending = [],
      playBtn_disabled = False, storage = st\<rparr>"

subsection \<open>Events\<close>

text \<open>
  What the host can deliver, each with the condition under which it can:
  \<^item> \<open>Play\<close>: a click on the start control (only while it is enabled) or the key handler
    of lines 220--225 (only while no round runs);
  \<^item> \<open>Hit\<close>: a click or key on an orb's element, which must be in the document;
  \<^item> \<open>Respawn\<close>: the timeout of a hit, once per hit;
  \<^item> \<open>Frame\<close>: the requested animation frame; \<open>Tick\<close>: the installed interval;
  \<^item> \<open>Resize\<close>: the window's resize event.
\<close>

datatype event =
    Play real real "nat \<Rightarrow> draw"
  | Hit ref real
  | Respawn ref draw
  | Frame real
  | Tick
  | Resize real real

fun fire :: "event \<Rightarrow> game \<Rightarrow> game" where
  "fire (Play w h ds) s =
     (if \<not> playBtn_disabled s \<or> \<not> running s then startGame w h ds s else s)"
| "fire (Hit r t) s = (if r \<in> set (area s) then hitOrb r t s else s)"
| "fire (Respawn r d) s =
     (if r \<in> set (pending s) then respawn r d (s\<lparr>pending := remove1 r (pending s)\<rparr>) else s)"
| "fire (Frame ts) s = (if raf s then step ts (s\<lparr>raf := False\<rparr>) else s)"
| "fire Tick s = (if timerId s then tick s else s)"
| "fire (Resize w h) s = resize w h s"

definition run :: "event list \<Rightarrow> game \<Rightarrow> game" where
  "run es s = fold fire es s"

section \<open>Concrete rounds and auxiliary notions\<close>

subsection \<open>Concrete rounds\<close>

text \<open>
  Readings that put an orb at (200, 85) of a 400 by 300 surface, moving right at 52.5
  px/s, and the round started with them from the initial state.
\<close>

definition sample_draw :: draw where
  "sample_draw = \<lparr>u_left = 1 / 2, u_top = 1 / 4, u_speed = 1 / 8, u_angle = 0\<rparr>"

definition fresh_round :: game where
  "fresh_round = startGame 400 300 (\<lambda>_. sample_draw) (init False None 400 300)"

definition ended_round :: game where
  \<comment> \<open>the concrete round after one hit at 1000 ms, ended\<close>
  "ended_round = endGame (hitOrb 0 1000 fresh_round)"

text \<open>The concrete round with orb 0 one pixel inside the left margin, moving left.\<close>

definition edge_round :: game where
  "edge_round =
     fresh_round\<lparr>lastTs := Some 1000,
       store := (store fresh_round)(0 \<mapsto> \<lparr>x = 13, y = 85, vx = - (105 / 2), vy = 0, alive = True\<rparr>)\<rparr>"

text \<open>The concrete round when reduced motion is preferred.\<close>

definition reduced_round :: game where
  "reduced_round = startGame 400 300 (\<lambda>_. sample_draw) (init True None 400 300)"



subsection \<open>References and traces\<close>

text \<open>
  Every reference the script holds (in the array, in a scheduled callback, in the
  document) was handed out by an earlier \<open>makeOrb\<close>; \<open>fresh_from n\<close> says that the array
  only holds orbs created at or after reference \<open>n\<close>.
\<close>

definition refs_below :: "game \<Rightarrow> bool" where
  "refs_below s \<longleftrightarrow>
     (\<forall>r \<in> set (orbs s) \<union> set (pending s) \<union> set (area s). r < next_ref s)"

definition fresh_from :: "ref \<Rightarrow> game \<Rightarrow> bool" where
  "fresh_from n s \<longleftrightarrow> n \<le> next_ref s \<and> (\<forall>r \<in> set (orbs s). n \<le> r)"

text \<open>
  The state of a session in which no callback of an earlier round is left over: every orb
  element in the document belongs to the array and, while a round runs, the array has
  \<open>ORB_COUNT\<close> orbs and every scheduled respawn is for an inactive orb of the array.
  A trace is \<open>calm\<close> when no round is started while a respawn is still scheduled.
\<close>

definition settled :: "game \<Rightarrow> bool" where
  "settled s \<longleftrightarrow>
     set (area s) \<subseteq> set (orbs s) \<and>
     (running s \<longrightarrow>
        length (orbs s) = ORB_COUNT \<and> distinct (pending s) \<and>
        (\<forall>r \<in> set (pending s). r \<in> set (orbs s) \<and> (\<exists>ob. store s r = Some ob \<and> \<not> alive ob)))"

fun calm :: "event list \<Rightarrow> game \<Rightarrow> bool" where
  "calm [] s \<longleftrightarrow> True"
| "calm (Play w h ds # es) s \<longleftrightarrow> pending s = [] \<and> calm es (fire (Play w h ds) s)"
| "calm (e # es) s \<longleftrightarrow> calm es (fire e s)"

text \<open>
  The session after a round whose last hit, on orb 0, comes between the 19th and the
  20th countdown tick, and the new round started from there before that hit's respawn
  timeout fires.
\<close>

definition hit_round_ended :: game where
  "hit_round_ended =
     run ([Play 400 300 (\<lambda>_. sample_draw)] @ replicate 19 Tick @ [Hit 0 24900, Tick])
       (init False None 400 300)"

definition restarted_round :: game where
  "restarted_round = startGame 400 300 (\<lambda>_. sample_draw) hit_round_ended"

text \<open>
  A round started at clock reading 5000 in which the last hit (at 24900) falls 100 ms
  before the countdown ends (at 25000), followed by a click on the re-enabled start
  control before that hit's respawn timeout fires (at 25100).
\<close>

definition leak_trace :: "event list" where
  "leak_trace =
     [Play 400 300 (\<lambda>_. sample_draw)] @ replicate 19 Tick @
     [Hit 0 24900, Tick, Play 400 300 (\<lambda>_. sample_draw), Respawn 0 sample_draw]"

text \<open>The events of one round on an unchanged surface: no new start and no resize.\<close>

fun within_round :: "event \<Rightarrow> bool" where
  "within_round (Play w h ds) \<longleftrightarrow> False"
| "within_round (Resize w h) \<longleftrightarrow> False"
| "within_round (Hit r t) \<longleftrightarrow> True"
| "within_round (Respawn r d) \<longleftrightarrow> True"
| "within_round (Frame ts) \<longleftrightarrow> True"
| "within_round Tick \<longleftrightarrow> True"

subsection \<open>The padded bounds and the speed\<close>

text \<open>
  The frame update and the resize handler keep coordinates between the margin 12 and the
  surface size minus 12; \<open>makeOrb\<close> places orbs between 20 and the size minus 20.
\<close>

definition in_bounds :: "real \<Rightarrow> real \<Rightarrow> orb \<Rightarrow> bool" where
  "in_bounds w h ob \<longleftrightarrow> 12 \<le> x ob \<and> x ob \<le> w - 12 \<and> 12 \<le> y ob \<and> y ob \<le> h - 12"




text \<open>
  An orb stores only its velocity components; its speed is their Euclidean norm, which
  \<open>makeOrb\<close> sets to the local \<open>speed\<close> of line 62.
\<close>

definition speed :: "orb \<Rightarrow> real" where
  "speed ob = sqrt ((vx ob)\<^sup>2 + (vy ob)\<^sup>2)"

section \<open>Basic facts about the operations\<close>

subsection \<open>Spawning and starting\<close>

lemma push_orb_eq:
  "push_orb d s =
     s\<lparr>store := (store s)(next_ref s \<mapsto> new_orb (prefersReduced s) (bounds_w s) (bounds_h s) d),
       next_ref := Suc (next_ref s), area := area s @ [next_ref s],
       orbs := orbs s @ [next_ref s]\<rparr>"
  by (simp add: push_orb_def makeOrb_def Let_def)

lemma spawnOrbs_0: "spawnOrbs 0 ds s = s"
  by (simp add: spawnOrbs_def)

lemma spawnOrbs_Suc: "spawnOrbs (Suc n) ds s = push_orb (ds n) (spawnOrbs n ds s)"
  by (simp add: spawnOrbs_def)

lemma spawnOrbs_same:
  "prefersReduced (spawnOrbs n ds s) = prefersReduced s"
  "score (spawnOrbs n ds s) = score s"
  "best (spawnOrbs n ds s) = best s"
  "timeLeft (spawnOrbs n ds s) = timeLeft s"
  "running (spawnOrbs n ds s) = running s"
  "lastHitTime (spawnOrbs n ds s) = lastHitTime s"
  "combo (spawnOrbs n ds s) = combo s"
  "raf (spawnOrbs n ds s) = raf s"
  "lastTs (spawnOrbs n ds s) = lastTs s"
  "timerId (spawnOrbs n ds s) = timerId s"
  "bounds_w (spawnOrbs n ds s) = bounds_w s"
  "bounds_h (spawnOrbs n ds s) = bounds_h s"
  "pending (spawnOrbs n ds s) = pending s"
  "playBtn_disabled (spawnOrbs n ds s) = playBtn_disabled s"
  "storage (spawnOrbs n ds s) = storage s"
  by (induction n; simp add: spawnOrbs_0 spawnOrbs_Suc push_orb_eq)+

lemma spawnOrbs_next_ref: "next_ref (spawnOrbs n ds s) = next_ref s + n"
  by (induction n) (simp_all add: spawnOrbs_0 spawnOrbs_Suc push_orb_eq)

lemma spawnOrbs_orbs: "orbs (spawnOrbs n ds s) = orbs s @ [next_ref s ..< next_ref s + n]"
  by (induction n) (simp_all add: spawnOrbs_0 spawnOrbs_Suc push_orb_eq spawnOrbs_next_ref)

lemma spawnOrbs_area: "area (spawnOrbs n ds s) = area s @ [next_ref s ..< next_ref s + n]"
  by (induction n) (simp_all add: spawnOrbs_0 spawnOrbs_Suc push_orb_eq spawnOrbs_next_ref)

lemma spawnOrbs_store:
  "store (spawnOrbs n ds s) r =
     (if next_ref s \<le> r \<and> r < next_ref s + n
      then Some (new_orb (prefersReduced s) (bounds_w s) (bounds_h s) (ds (r - next_ref s)))
      else store s r)"
proof (induction n)
  case 0
  show ?case by (auto simp: spawnOrbs_0)
next
  case (Suc n)
  show ?case
    by (auto simp: spawnOrbs_Suc push_orb_eq spawnOrbs_next_ref spawnOrbs_same Suc)
qed

lemma set_fold_removeAll: "set (fold removeAll rs xs) = set xs - set rs"
  by (induction rs arbitrary: xs) auto

lemma startGame_fields:
  "score (startGame w h ds s) = 0"
  "combo (startGame w h ds s) = 0"
  "lastHitTime (startGame w h ds s) = 0"
  "running (startGame w h ds s)"
  "timeLeft (startGame w h ds s) = ROUND_SECONDS"
  "timerId (startGame w h ds s)"
  "raf (startGame w h ds s)"
  "playBtn_disabled (startGame w h ds s)"
  "bounds_w (startGame w h ds s) = w"
  "bounds_h (startGame w h ds s) = h"
  "best (startGame w h ds s) = best s"
  "storage (startGame w h ds s) = storage s"
  "pending (startGame w h ds s) = pending s"
  "prefersReduced (startGame w h ds s) = prefersReduced s"
  "lastTs (startGame w h ds s) = None"
  "next_ref (startGame w h ds s) = next_ref s + ORB_COUNT"
  "orbs (startGame w h ds s) = [next_ref s ..< next_ref s + ORB_COUNT]"
  by (simp_all add: startGame_def startTimer_def clearGame_def measure_area_def Let_def
        spawnOrbs_same spawnOrbs_next_ref spawnOrbs_orbs)

lemma startGame_store:
  "store (startGame w h ds s) r =
     (if next_ref s \<le> r \<and> r < next_ref s + ORB_COUNT
      then Some (new_orb (prefersReduced s) w h (ds (r - next_ref s)))
      else store s r)"
  by (simp add: startGame_def startTimer_def clearGame_def measure_area_def Let_def
        spawnOrbs_store)

lemma startGame_store_old: "r < next_ref s \<Longrightarrow> store (startGame w h ds s) r = store s r"
  by (simp add: startGame_store)

lemma startGame_area:
  "area (startGame w h ds s)
     = fold removeAll (orbs s) (area s) @ [next_ref s ..< next_ref s + ORB_COUNT]"
  by (simp add: startGame_def startTimer_def clearGame_def measure_area_def Let_def
        spawnOrbs_area)

lemma new_orb_alive: "alive (new_orb pr w h d)"
  by (simp add: new_orb_def Let_def)

lemma startGame_orb:
  "r \<in> set (orbs (startGame w h ds s)) \<Longrightarrow>
   \<exists>ob. store (startGame w h ds s) r = Some ob \<and> alive ob"
  by (simp add: startGame_fields startGame_store new_orb_alive)

subsection \<open>Hits and respawns\<close>

lemma hitOrb_ok:
  "store s r = Some ob \<Longrightarrow> running s \<Longrightarrow> alive ob \<Longrightarrow>
   hitOrb r t s =
     s\<lparr>combo := (if t - lastHitTime s \<le> COMBO_WINDOW_MS then combo s + 1 else 0),
       lastHitTime := t,
       score := score s + BASE_POINTS *
         (1 + min (if t - lastHitTime s \<le> COMBO_WINDOW_MS then combo s + 1 else 0) 5),
       store := (store s)(r \<mapsto> ob\<lparr>alive := False\<rparr>),
       pending := pending s @ [r]\<rparr>"
  by (simp add: hitOrb_def Let_def)

lemma hitOrb_noop:
  "\<not> running s \<or> store s r = None \<or> (\<exists>ob. store s r = Some ob \<and> \<not> alive ob) \<Longrightarrow> hitOrb r t s = s"
  by (auto simp: hitOrb_def split: option.splits)

lemma hitOrb_fields:
  "running (hitOrb r t s) = running s" "best (hitOrb r t s) = best s"
  "storage (hitOrb r t s) = storage s" "orbs (hitOrb r t s) = orbs s"
  "next_ref (hitOrb r t s) = next_ref s" "area (hitOrb r t s) = area s"
  "bounds_w (hitOrb r t s) = bounds_w s" "bounds_h (hitOrb r t s) = bounds_h s"
  "prefersReduced (hitOrb r t s) = prefersReduced s" "timeLeft (hitOrb r t s) = timeLeft s"
  "timerId (hitOrb r t s) = timerId s" "raf (hitOrb r t s) = raf s"
  "lastTs (hitOrb r t s) = lastTs s" "playBtn_disabled (hitOrb r t s) = playBtn_disabled s"
  by (simp_all add: hitOrb_def Let_def split: option.splits)

lemma hitOrb_hit:
  assumes "store s r = Some ob" and "running s" and "alive ob"
  shows "combo (hitOrb r t s) = (if t - lastHitTime s \<le> COMBO_WINDOW_MS then combo s + 1 else 0)"
    and "lastHitTime (hitOrb r t s) = t"
    and "score (hitOrb r t s) = score s + BASE_POINTS * (1 + min (combo (hitOrb r t s)) 5)"
  using assms by (simp_all add: hitOrb_ok)

lemma hitOrb_store_same:
  "store s r = Some ob \<Longrightarrow> running s \<Longrightarrow> alive ob \<Longrightarrow>
   store (hitOrb r t s) r = Some (ob\<lparr>alive := False\<rparr>)"
  by (simp add: hitOrb_ok)

lemma hitOrb_store_other: "q \<noteq> r \<Longrightarrow> store (hitOrb r t s) q = store s q"
  by (simp add: hitOrb_def Let_def split: option.splits)

lemma hitOrb_store_dead:
  assumes "store s q = Some ob"
  shows "store (hitOrb r t s) q = Some ob \<or> store (hitOrb r t s) q = Some (ob\<lparr>alive := False\<rparr>)"
proof (cases "q = r")
  case True
  then show ?thesis using assms by (simp add: hitOrb_def Let_def)
next
  case False
  then show ?thesis using assms by (simp add: hitOrb_store_other)
qed


lemma hitOrb_pending: "set (pending (hitOrb r t s)) \<subseteq> insert r (set (pending s))"
  by (auto simp: hitOrb_def Let_def split: option.splits if_splits)

lemma respawn_running:
  "running s \<Longrightarrow>
   respawn r d s =
     s\<lparr>area := removeAll r (area s) @ [next_ref s],
       orbs := remove1 r (orbs s) @ [next_ref s],
       store := (store s)(next_ref s \<mapsto> new_orb (prefersReduced s) (bounds_w s) (bounds_h s) d),
       next_ref := Suc (next_ref s)\<rparr>"
  by (simp add: respawn_def push_orb_eq)

lemma respawn_idle: "\<not> running s \<Longrightarrow> respawn r d s = s"
  by (simp add: respawn_def)

lemma respawn_fields:
  "score (respawn r d s) = score s" "combo (respawn r d s) = combo s"
  "lastHitTime (respawn r d s) = lastHitTime s" "running (respawn r d s) = running s"
  "pending (respawn r d s) = pending s" "best (respawn r d s) = best s"
  "storage (respawn r d s) = storage s" "bounds_w (respawn r d s) = bounds_w s"
  "bounds_h (respawn r d s) = bounds_h s" "prefersReduced (respawn r d s) = prefersReduced s"
  "timeLeft (respawn r d s) = timeLeft s" "timerId (respawn r d s) = timerId s"
  "orbs (respawn r d s) = (if running s then remove1 r (orbs s) @ [next_ref s] else orbs s)"
  "next_ref (respawn r d s) = (if running s then Suc (next_ref s) else next_ref s)"
  by (simp_all add: respawn_def push_orb_eq)

lemma respawn_area:
  "area (respawn r d s) = (if running s then removeAll r (area s) @ [next_ref s] else area s)"
  by (simp add: respawn_def push_orb_eq)

lemma respawn_store:
  "store (respawn r d s) =
     (if running s
      then (store s)(next_ref s \<mapsto> new_orb (prefersReduced s) (bounds_w s) (bounds_h s) d)
      else store s)"
  by (simp add: respawn_def push_orb_eq)

subsection \<open>Updating the objects of the array\<close>

lemma update_at_other: "q \<noteq> r \<Longrightarrow> update_at f r st q = st q"
  by (simp add: update_at_def split: option.splits)

lemma update_at_same: "update_at f r st r = map_option f (st r)"
  by (simp add: update_at_def split: option.splits)

lemma fold_update_at_notin: "r \<notin> set rs \<Longrightarrow> fold (update_at f) rs st r = st r"
  by (induction rs arbitrary: st) (auto simp: update_at_other)

lemma fold_update_at_distinct:
  "distinct rs \<Longrightarrow>
   fold (update_at f) rs st r = (if r \<in> set rs then map_option f (st r) else st r)"
proof (induction rs arbitrary: st)
  case Nil
  show ?case by simp
next
  case (Cons q rs)
  then show ?case
    by (cases "q = r") (auto simp: update_at_other update_at_same fold_update_at_notin)
qed

lemma fold_update_at_pres:
  assumes "\<And>ob. P ob \<Longrightarrow> P (f ob)" and "st r = Some ob" and "P ob"
  shows "\<exists>ob'. fold (update_at f) rs st r = Some ob' \<and> P ob'"
  using assms(2,3)
proof (induction rs arbitrary: st ob)
  case Nil
  then show ?case by simp
next
  case (Cons q rs)
  show ?case
  proof (cases "q = r")
    case True
    have "update_at f q st r = Some (f ob)" using True Cons.prems by (simp add: update_at_same)
    moreover have "P (f ob)" using assms(1) Cons.prems by blast
    ultimately show ?thesis using Cons.IH by simp
  next
    case False
    then have "update_at f q st r = Some ob" using Cons.prems by (simp add: update_at_other)
    then show ?thesis using Cons.IH Cons.prems by simp
  qed
qed

lemma fold_update_at_None: "st r = None \<Longrightarrow> fold (update_at f) rs st r = None"
proof (induction rs arbitrary: st)
  case Nil
  then show ?case by simp
next
  case (Cons q rs)
  have "update_at f q st r = None"
    using Cons.prems by (cases "q = r") (simp_all add: update_at_same update_at_other)
  then show ?case using Cons.IH by simp
qed


lemma alive_fold_update_at:
  assumes "\<And>ob. alive (f ob) = alive ob" and "st r = Some ob"
  shows "\<exists>ob'. fold (update_at f) rs st r = Some ob' \<and> alive ob' = alive ob"
  using fold_update_at_pres [of "\<lambda>p. alive p = alive ob" f st r ob rs] assms by simp

subsection \<open>Frames, countdown, end of round, resize\<close>

lemma step_fields:
  "orbs (step ts s) = orbs s" "next_ref (step ts s) = next_ref s"
  "running (step ts s) = running s" "score (step ts s) = score s"
  "combo (step ts s) = combo s" "lastHitTime (step ts s) = lastHitTime s"
  "pending (step ts s) = pending s" "area (step ts s) = area s"
  "bounds_w (step ts s) = bounds_w s" "bounds_h (step ts s) = bounds_h s"
  "prefersReduced (step ts s) = prefersReduced s" "best (step ts s) = best s"
  "storage (step ts s) = storage s" "timeLeft (step ts s) = timeLeft s"
  "timerId (step ts s) = timerId s" "playBtn_disabled (step ts s) = playBtn_disabled s"
  by (simp_all add: step_def Let_def)

lemma step_store_eq:
  "store (step ts s) =
     (if running s
      then fold (update_at (step_orb (bounds_w s) (bounds_h s) (frame_dt ts (lastTs s))))
             (orbs s) (store s)
      else store s)"
  by (simp add: step_def Let_def)

lemma step_store:
  "running s \<Longrightarrow> distinct (orbs s) \<Longrightarrow>
   store (step ts s) r =
     (if r \<in> set (orbs s)
      then map_option (step_orb (bounds_w s) (bounds_h s) (frame_dt ts (lastTs s))) (store s r)
      else store s r)"
  by (simp add: step_def Let_def fold_update_at_distinct)

text \<open>
  The frame callback receives the host's frame timestamps, which do not decrease; the
  capped time step is then never negative.
\<close>

lemma frame_dt_nonneg: "(\<And>l. lt = Some l \<Longrightarrow> l \<le> ts) \<Longrightarrow> 0 \<le> frame_dt ts lt"
  by (cases lt) (simp_all add: frame_dt_def)

lemma clearGame_fields:
  "score (clearGame s) = score s" "best (clearGame s) = best s"
  "storage (clearGame s) = storage s" "running (clearGame s) = running s"
  "combo (clearGame s) = combo s" "lastHitTime (clearGame s) = lastHitTime s"
  "orbs (clearGame s) = []" "store (clearGame s) = store s"
  "next_ref (clearGame s) = next_ref s" "pending (clearGame s) = pending s"
  "bounds_w (clearGame s) = bounds_w s" "bounds_h (clearGame s) = bounds_h s"
  "prefersReduced (clearGame s) = prefersReduced s" "timeLeft (clearGame s) = timeLeft s"
  "timerId (clearGame s) = False" "raf (clearGame s) = False"
  by (simp_all add: clearGame_def)

lemma endGame_fields:
  "running (endGame s) = False" "orbs (endGame s) = []" "score (endGame s) = score s"
  "combo (endGame s) = combo s" "lastHitTime (endGame s) = lastHitTime s"
  "store (endGame s) = store s" "next_ref (endGame s) = next_ref s"
  "pending (endGame s) = pending s" "playBtn_disabled (endGame s) = False"
  "bounds_w (endGame s) = bounds_w s" "bounds_h (endGame s) = bounds_h s"
  "prefersReduced (endGame s) = prefersReduced s"
  "timerId (endGame s) = False" "raf (endGame s) = False"
  by (simp_all add: endGame_def clearGame_def Let_def)

lemma tick_counting: "1 < timeLeft s \<Longrightarrow> tick s = s\<lparr>timeLeft := timeLeft s - 1\<rparr>"
  by (simp add: tick_def Let_def)

lemma tick_ending: "timeLeft s \<le> 1 \<Longrightarrow> tick s = endGame (s\<lparr>timeLeft := timeLeft s - 1\<rparr>)"
  by (simp add: tick_def Let_def)

lemma tick_fields:
  "next_ref (tick s) = next_ref s" "pending (tick s) = pending s" "store (tick s) = store s"
  "score (tick s) = score s" "combo (tick s) = combo s" "lastHitTime (tick s) = lastHitTime s"
  "bounds_w (tick s) = bounds_w s" "bounds_h (tick s) = bounds_h s"
  "prefersReduced (tick s) = prefersReduced s"
  "orbs (tick s) = (if 1 < timeLeft s then orbs s else [])"
  "running (tick s) = (if 1 < timeLeft s then running s else False)"
  by (simp_all add: tick_def Let_def endGame_fields)

lemma tick_area: "set (area (tick s)) \<subseteq> set (area s)"
  by (auto simp: tick_def endGame_def clearGame_def Let_def set_fold_removeAll)

lemma resize_fields:
  "orbs (resize w h s) = orbs s" "next_ref (resize w h s) = next_ref s"
  "running (resize w h s) = running s" "score (resize w h s) = score s"
  "combo (resize w h s) = combo s" "lastHitTime (resize w h s) = lastHitTime s"
  "pending (resize w h s) = pending s" "area (resize w h s) = area s"
  "bounds_w (resize w h s) = w" "bounds_h (resize w h s) = h"
  "prefersReduced (resize w h s) = prefersReduced s" "best (resize w h s) = best s"
  "storage (resize w h s) = storage s" "timeLeft (resize w h s) = timeLeft s"
  "timerId (resize w h s) = timerId s" "playBtn_disabled (resize w h s) = playBtn_disabled s"
  "raf (resize w h s) = raf s" "lastTs (resize w h s) = lastTs s"
  by (simp_all add: resize_def measure_area_def Let_def)

lemma resize_store_eq:
  "store (resize w h s) = fold (update_at (clamp_orb w h)) (orbs s) (store s)"
  by (simp add: resize_def measure_area_def Let_def)

subsection \<open>Traces\<close>

lemma run_Nil: "run [] s = s"
  by (simp add: run_def)

lemma run_Cons: "run (e # es) s = run es (fire e s)"
  by (simp add: run_def)

lemma run_append: "run (es @ es') s = run es' (run es s)"
  by (simp add: run_def)

lemma run_ticks:
  "timerId s \<Longrightarrow> int n < timeLeft s \<Longrightarrow>
   run (replicate n Tick) s = s\<lparr>timeLeft := timeLeft s - int n\<rparr>"
proof (induction n arbitrary: s)
  case 0
  show ?case by (simp add: run_Nil)
next
  case (Suc n)
  have "fire Tick s = s\<lparr>timeLeft := timeLeft s - 1\<rparr>"
    using Suc.prems by (simp add: tick_counting)
  moreover have "run (replicate n Tick) (s\<lparr>timeLeft := timeLeft s - 1\<rparr>)
      = s\<lparr>timeLeft := timeLeft s - 1, timeLeft := timeLeft s - 1 - int n\<rparr>"
    using Suc.prems Suc.IH [of "s\<lparr>timeLeft := timeLeft s - 1\<rparr>"] by simp
  ultimately show ?case by (simp add: run_Cons algebra_simps)
qed

subsection \<open>One orb in one frame\<close>

lemma bounce_coords:
  "x (bounce_left ob) = max 12 (x ob)" "y (bounce_left ob) = y ob"
  "x (bounce_top ob) = x ob" "y (bounce_top ob) = max 12 (y ob)"
  "x (bounce_right w ob) = min (w - 12) (x ob)" "y (bounce_right w ob) = y ob"
  "x (bounce_bottom h ob) = x ob" "y (bounce_bottom h ob) = min (h - 12) (y ob)"
  by (simp_all add: bounce_left_def bounce_top_def bounce_right_def bounce_bottom_def)

lemma bounce_velocity:
  "vx (bounce_left ob) = (if x ob < 12 then \<bar>vx ob\<bar> else vx ob)" "vy (bounce_left ob) = vy ob"
  "vx (bounce_top ob) = vx ob" "vy (bounce_top ob) = (if y ob < 12 then \<bar>vy ob\<bar> else vy ob)"
  "vx (bounce_right w ob) = (if w - 12 < x ob then - \<bar>vx ob\<bar> else vx ob)"
  "vy (bounce_right w ob) = vy ob"
  "vx (bounce_bottom h ob) = vx ob"
  "vy (bounce_bottom h ob) = (if h - 12 < y ob then - \<bar>vy ob\<bar> else vy ob)"
  by (simp_all add: bounce_left_def bounce_top_def bounce_right_def bounce_bottom_def)

lemma bounce_abs_vx:
  "\<bar>vx (bounce_left ob)\<bar> = \<bar>vx ob\<bar>" "\<bar>vx (bounce_top ob)\<bar> = \<bar>vx ob\<bar>"
  "\<bar>vx (bounce_right w ob)\<bar> = \<bar>vx ob\<bar>" "\<bar>vx (bounce_bottom h ob)\<bar> = \<bar>vx ob\<bar>"
  by (simp_all add: bounce_left_def bounce_top_def bounce_right_def bounce_bottom_def)

lemma bounce_abs_vy:
  "\<bar>vy (bounce_left ob)\<bar> = \<bar>vy ob\<bar>" "\<bar>vy (bounce_top ob)\<bar> = \<bar>vy ob\<bar>"
  "\<bar>vy (bounce_right w ob)\<bar> = \<bar>vy ob\<bar>" "\<bar>vy (bounce_bottom h ob)\<bar> = \<bar>vy ob\<bar>"
  by (simp_all add: bounce_left_def bounce_top_def bounce_right_def bounce_bottom_def)

lemma step_orb_coords:
  "x (step_orb w h dt ob) = (if alive ob then min (w - 12) (max 12 (x ob + vx ob * dt)) else x ob)"
  "y (step_orb w h dt ob) = (if alive ob then min (h - 12) (max 12 (y ob + vy ob * dt)) else y ob)"
  by (simp_all add: step_orb_def bounce_def bounce_coords integrate_def)

lemma step_orb_position:
  assumes "alive ob" and "24 \<le> w" and "24 \<le> h"
  shows "x (step_orb w h dt ob) =
           (if x ob + vx ob * dt < 12 then 12
            else if w - 12 < x ob + vx ob * dt then w - 12 else x ob + vx ob * dt)"
    and "y (step_orb w h dt ob) =
           (if y ob + vy ob * dt < 12 then 12
            else if h - 12 < y ob + vy ob * dt then h - 12 else y ob + vy ob * dt)"
  using assms by (simp_all add: step_orb_coords)

lemma step_orb_velocity:
  assumes "alive ob" and "24 \<le> w" and "24 \<le> h"
  shows "vx (step_orb w h dt ob) =
           (if x ob + vx ob * dt < 12 then \<bar>vx ob\<bar>
            else if w - 12 < x ob + vx ob * dt then - \<bar>vx ob\<bar> else vx ob)"
    and "vy (step_orb w h dt ob) =
           (if y ob + vy ob * dt < 12 then \<bar>vy ob\<bar>
            else if h - 12 < y ob + vy ob * dt then - \<bar>vy ob\<bar> else vy ob)"
  using assms
  by (simp_all add: step_orb_def bounce_def bounce_velocity bounce_coords integrate_def)

lemma step_orb_abs:
  "\<bar>vx (step_orb w h dt ob)\<bar> = \<bar>vx ob\<bar>" "\<bar>vy (step_orb w h dt ob)\<bar> = \<bar>vy ob\<bar>"
  by (simp_all add: step_orb_def bounce_def bounce_abs_vx bounce_abs_vy integrate_def)

lemma step_orb_alive: "alive (step_orb w h dt ob) = alive ob"
  by (simp add: step_orb_def bounce_def bounce_left_def bounce_top_def bounce_right_def
        bounce_bottom_def integrate_def)

lemma step_orb_still:
  assumes "vx ob = 0" and "vy ob = 0" and "in_bounds w h ob"
  shows "x (step_orb w h dt ob) = x ob \<and> y (step_orb w h dt ob) = y ob
       \<and> vx (step_orb w h dt ob) = 0 \<and> vy (step_orb w h dt ob) = 0"
proof -
  have "\<bar>vx (step_orb w h dt ob)\<bar> = 0" "\<bar>vy (step_orb w h dt ob)\<bar> = 0"
    using assms(1,2) by (simp_all add: step_orb_abs)
  then show ?thesis
    using assms by (simp add: step_orb_coords in_bounds_def)
qed

lemma heading_out:
  fixes p v dt lo hi :: real
  assumes "lo \<le> p" and "p \<le> hi" and "0 \<le> dt"
  shows "p + v * dt < lo \<Longrightarrow> v < 0" and "hi < p + v * dt \<Longrightarrow> 0 < v"
proof -
  show "v < 0" if "p + v * dt < lo"
  proof (rule ccontr)
    assume "\<not> v < 0"
    then have "0 \<le> v * dt" using assms(3) by simp
    then show False using that assms(1) by simp
  qed
  show "0 < v" if "hi < p + v * dt"
  proof (rule ccontr)
    assume "\<not> 0 < v"
    then have "v * dt \<le> 0" using assms(3) by (simp add: mult_nonpos_nonneg)
    then show False using that assms(2) by simp
  qed
qed

lemma clamp_orb_velocity:
  "vx (clamp_orb w h ob) = vx ob" "vy (clamp_orb w h ob) = vy ob"
  by (simp_all add: clamp_orb_def)

lemma clamp_orb_alive: "alive (clamp_orb w h ob) = alive ob"
  by (simp add: clamp_orb_def)

subsection \<open>The concrete rounds\<close>

lemma sample_orb:
  "new_orb False 400 300 sample_draw = \<lparr>x = 200, y = 85, vx = 105 / 2, vy = 0, alive = True\<rparr>"
  by (simp add: new_orb_def sample_draw_def rand_def SPEED_MIN_def SPEED_MAX_def Let_def)


lemma reduced_orb:
  "new_orb True 400 300 sample_draw = \<lparr>x = 200, y = 85, vx = 0, vy = 0, alive = True\<rparr>"
  by (simp add: new_orb_def sample_draw_def rand_def Let_def)

lemma fresh_round_orb:
  "r < 6 \<Longrightarrow> store fresh_round r = Some (new_orb False 400 300 sample_draw)"
  by (simp add: fresh_round_def startGame_store init_def ORB_COUNT_def)

lemma fresh_round_fields:
  "running fresh_round" "score fresh_round = 0" "combo fresh_round = 0"
  "lastHitTime fresh_round = 0" "best fresh_round = 0" "storage fresh_round = None"
  "orbs fresh_round = [0..<6]" "pending fresh_round = []" "next_ref fresh_round = 6"
  "bounds_w fresh_round = 400" "bounds_h fresh_round = 300"
  by (simp_all add: fresh_round_def startGame_fields init_def ORB_COUNT_def)

lemma fresh_round_start: "fire (Play 400 300 (\<lambda>_. sample_draw)) (init False None 400 300) = fresh_round"
  by (simp add: fresh_round_def init_def)

lemma fresh_round_more:
  "timerId fresh_round" "timeLeft fresh_round = 20" "area fresh_round = [0..<6]"
  "playBtn_disabled fresh_round"
  by (simp_all add: fresh_round_def startGame_fields startGame_area init_def ORB_COUNT_def
        ROUND_SECONDS_def)

lemma edge_round_fields:
  "running edge_round" "orbs edge_round = [0..<6]" "bounds_w edge_round = 400"
  "bounds_h edge_round = 300" "lastTs edge_round = Some 1000"
  "store edge_round 0 = Some \<lparr>x = 13, y = 85, vx = - (105 / 2), vy = 0, alive = True\<rparr>"
  by (simp_all add: edge_round_def fresh_round_fields)



lemma reduced_round_fields:
  "prefersReduced reduced_round" "running reduced_round" "orbs reduced_round = [0..<6]"
  "bounds_w reduced_round = 400" "bounds_h reduced_round = 300" "next_ref reduced_round = 6"
  by (simp_all add: reduced_round_def startGame_fields init_def ORB_COUNT_def)

lemma reduced_round_orb:
  "r < 6 \<Longrightarrow> store reduced_round r = Some \<lparr>x = 200, y = 85, vx = 0, vy = 0, alive = True\<rparr>"
  by (simp add: reduced_round_def startGame_store init_def ORB_COUNT_def reduced_orb)

section \<open>Scoring\<close>

text \<open>
  The last-hit reference is 0 after a start and otherwise the clock reading of the latest
  successful hit: no other event changes it.
\<close>

lemma lastHitTime_fire:
  "lastHitTime (fire e s) =
     (case e of
        Play w h ds \<Rightarrow> (if \<not> playBtn_disabled s \<or> \<not> running s then 0 else lastHitTime s)
      | Hit r t \<Rightarrow> (if fire e s = s then lastHitTime s else t)
      | _ \<Rightarrow> lastHitTime s)"
proof (cases e)
  case (Hit r t)
  show ?thesis
  proof (cases "hitOrb r t s = s")
    case True
    then show ?thesis using Hit by simp
  next
    case False
    then obtain ob where "store s r = Some ob" "running s" "alive ob"
      by (auto simp: hitOrb_def split: option.splits if_splits)
    then have "lastHitTime (hitOrb r t s) = t" by (simp add: hitOrb_hit)
    then show ?thesis using Hit False by simp
  qed
qed (simp_all add: startGame_fields respawn_fields step_fields tick_def Let_def endGame_fields
      resize_fields)


text \<open>
  Claim C5. For every successful hit, with \<open>c\<close> the combo counter after the combo update
  of that hit, the awarded points (the increase of the score) are
  \<open>BASE_POINTS * (1 + min c 5)\<close>; the multiplier never exceeds \<open>1 + 5\<close>, and \<open>c\<close> is
  non-negative whenever the counter was non-negative before.
\<close>

theorem hitOrb_points:
  assumes "store s r = Some ob" and "running s" and "alive ob"
  shows "score (hitOrb r t s) = score s + BASE_POINTS * (1 + min (combo (hitOrb r t s)) 5)
         \<and> 1 + min (combo (hitOrb r t s)) 5 \<le> 1 + (5::int)
         \<and> (0 \<le> combo s \<longrightarrow> 0 \<le> combo (hitOrb r t s))"
  using assms by (simp add: hitOrb_ok)

theorem hitOrb_points_witness:
  "store fresh_round 0 = Some (new_orb False 400 300 sample_draw) \<and> running fresh_round
   \<and> alive (new_orb False 400 300 sample_draw) \<and> 0 \<le> combo fresh_round
   \<and> combo (hitOrb 0 1000 fresh_round) = 0
   \<and> score (hitOrb 0 1000 fresh_round) = 10"
  using hitOrb_points [of fresh_round 0 "new_orb False 400 300 sample_draw" 1000]
  by (simp add: fresh_round_orb fresh_round_fields new_orb_alive hitOrb_ok
        COMBO_WINDOW_MS_def BASE_POINTS_def)

text \<open>
  Claim C6. For every activation of an alive orb during a running round: when the time
  since the last-hit reference exceeds the combo window the counter is reset to 0 before
  the points are computed (so the hit is worth the base points), when it is within the
  window the counter grows by exactly 1; the hit's time becomes the new reference. So
  for the next successful hit the elapsed time is the time since this hit: beyond the
  window it resets the counter, within the window it adds 1.
\<close>

theorem combo_update:
  assumes "store s r = Some ob" and "running s" and "alive ob"
  shows "(COMBO_WINDOW_MS < t - lastHitTime s \<longrightarrow>
            combo (hitOrb r t s) = 0 \<and> score (hitOrb r t s) = score s + BASE_POINTS)
         \<and> (t - lastHitTime s \<le> COMBO_WINDOW_MS \<longrightarrow> combo (hitOrb r t s) = combo s + 1)
         \<and> lastHitTime (hitOrb r t s) = t
         \<and> (\<forall>q ob' t'. q \<noteq> r \<and> store s q = Some ob' \<and> alive ob' \<longrightarrow>
              (COMBO_WINDOW_MS < t' - t \<longrightarrow> combo (hitOrb q t' (hitOrb r t s)) = 0)
            \<and> (t' - t \<le> COMBO_WINDOW_MS \<longrightarrow>
                 combo (hitOrb q t' (hitOrb r t s)) = combo (hitOrb r t s) + 1))"
proof -
  have next_hit: "combo (hitOrb q t' (hitOrb r t s))
      = (if t' - t \<le> COMBO_WINDOW_MS then combo (hitOrb r t s) + 1 else 0)"
    if "q \<noteq> r" and "store s q = Some ob'" and "alive ob'" for q ob' t'
  proof -
    have "store (hitOrb r t s) q = Some ob'" "running (hitOrb r t s)"
      using that assms(2) by (simp_all add: hitOrb_store_other hitOrb_fields)
    then show ?thesis
      using that(3) hitOrb_hit(2) [OF assms, of t] by (simp add: hitOrb_hit(1))
  qed
  show ?thesis
    using assms next_hit by (simp add: hitOrb_ok)
qed

theorem combo_update_witness:
  "store fresh_round 0 = Some (new_orb False 400 300 sample_draw) \<and> running fresh_round
   \<and> alive (new_orb False 400 300 sample_draw)
   \<and> COMBO_WINDOW_MS < 1000 - lastHitTime fresh_round
   \<and> combo (hitOrb 0 1000 fresh_round) = 0
   \<and> score (hitOrb 0 1000 fresh_round) = score fresh_round + BASE_POINTS
   \<and> lastHitTime (hitOrb 0 1000 fresh_round) = 1000
   \<and> 500 - lastHitTime fresh_round \<le> COMBO_WINDOW_MS
   \<and> combo (hitOrb 0 500 fresh_round) = combo fresh_round + 1
   \<and> store fresh_round 2 = Some (new_orb False 400 300 sample_draw)
   \<and> 1200 - 1000 \<le> COMBO_WINDOW_MS
   \<and> combo (hitOrb 2 1200 (hitOrb 0 1000 fresh_round)) = 1
   \<and> COMBO_WINDOW_MS < 2000 - 1000
   \<and> combo (hitOrb 2 2000 (hitOrb 0 1000 fresh_round)) = 0"
proof -
  note c = combo_update [of fresh_round 0 "new_orb False 400 300 sample_draw"]
  have base: "store fresh_round 0 = Some (new_orb False 400 300 sample_draw)"
      "store fresh_round 2 = Some (new_orb False 400 300 sample_draw)" "running fresh_round"
      "alive (new_orb False 400 300 sample_draw)"
    by (simp_all add: fresh_round_orb fresh_round_fields new_orb_alive)
  have first: "combo (hitOrb 0 1000 fresh_round) = 0"
      "score (hitOrb 0 1000 fresh_round) = score fresh_round + BASE_POINTS"
      "lastHitTime (hitOrb 0 1000 fresh_round) = 1000"
    using c [OF base(1,3,4), of 1000] by (simp_all add: fresh_round_fields COMBO_WINDOW_MS_def)
  have early: "combo (hitOrb 0 500 fresh_round) = combo fresh_round + 1"
    using c [OF base(1,3,4), of 500] by (simp add: fresh_round_fields COMBO_WINDOW_MS_def)
  have "combo (hitOrb 2 1200 (hitOrb 0 1000 fresh_round)) = combo (hitOrb 0 1000 fresh_round) + 1"
      "combo (hitOrb 2 2000 (hitOrb 0 1000 fresh_round)) = 0"
    using c [OF base(1,3,4), of 1000] base(2,4) by (simp_all add: COMBO_WINDOW_MS_def)
  then show ?thesis
    using base first early by (simp add: fresh_round_fields COMBO_WINDOW_MS_def)
qed

section \<open>The combo scenario\<close>

lemma run_hits:
  assumes "a \<in> set (area s)" and "b \<in> set (area s)" and "c \<in> set (area s)"
    and "e \<in> set (area s)"
  shows "run [Hit a t1] s = hitOrb a t1 s"
    and "run [Hit a t1, Hit b t2] s = hitOrb b t2 (hitOrb a t1 s)"
    and "run [Hit a t1, Hit b t2, Hit c t3] s = hitOrb c t3 (hitOrb b t2 (hitOrb a t1 s))"
    and "run [Hit a t1, Hit b t2, Hit c t3, Hit e t4] s
           = hitOrb e t4 (hitOrb c t3 (hitOrb b t2 (hitOrb a t1 s)))"
  using assms by (simp_all add: run_Cons run_Nil hitOrb_fields)

lemma startGame_orbs_in_area:
  "r \<in> set (orbs (startGame w h ds s)) \<Longrightarrow> r \<in> set (area (startGame w h ds s))"
  by (simp add: startGame_fields startGame_area)

text \<open>
  Claim C1 fails on the code. \<open>startGame\<close> resets the last-hit reference to 0 to
  mean that the round has no previous hit (line 175), but 0 is also a clock reading: the
  first hit of the scenario, at reading 0, is compared with it, found within the window
  and counted as a chained hit. At the claim's input, hits at 0, 200, 500 and 1700 ms on
  a freshly started round, the code computes the combos 1, 2, 3, 0 and the scores 20,
  50, 90, 100, where the claim (and the code's own description of the combo as growing
  with the time between hits) has 0, 1, 2, 0 and 10, 30, 60, 70.
\<close>

theorem first_hit_chains_with_reset_reference:
  "lastHitTime fresh_round = 0 \<and> combo fresh_round = 0 \<and> score fresh_round = 0
   \<and> combo (run [Hit 0 0] fresh_round) = 1
   \<and> combo (run [Hit 0 0, Hit 1 200] fresh_round) = 2
   \<and> combo (run [Hit 0 0, Hit 1 200, Hit 2 500] fresh_round) = 3
   \<and> combo (run [Hit 0 0, Hit 1 200, Hit 2 500, Hit 3 1700] fresh_round) = 0
   \<and> score (run [Hit 0 0] fresh_round) = 20
   \<and> score (run [Hit 0 0, Hit 1 200] fresh_round) = 50
   \<and> score (run [Hit 0 0, Hit 1 200, Hit 2 500] fresh_round) = 90
   \<and> score (run [Hit 0 0, Hit 1 200, Hit 2 500, Hit 3 1700] fresh_round) = 100"
proof -
  let ?o = "new_orb False 400 300 sample_draw"
  let ?s1 = "hitOrb 0 0 fresh_round"
  let ?s2 = "hitOrb 1 200 ?s1"
  let ?s3 = "hitOrb 2 500 ?s2"
  let ?s4 = "hitOrb 3 1700 ?s3"
  have o1: "store fresh_round 0 = Some ?o" by (simp add: fresh_round_orb del: One_nat_def)
  have o2: "store ?s1 1 = Some ?o" by (simp add: hitOrb_store_other fresh_round_orb del: One_nat_def)
  have o3: "store ?s2 2 = Some ?o" by (simp add: hitOrb_store_other fresh_round_orb del: One_nat_def)
  have o4: "store ?s3 3 = Some ?o" by (simp add: hitOrb_store_other fresh_round_orb del: One_nat_def)
  have r: "running fresh_round" "running ?s1" "running ?s2" "running ?s3"
    by (simp_all add: hitOrb_fields fresh_round_fields)
  note h1 = hitOrb_hit [OF o1 r(1) new_orb_alive]
  note h2 = hitOrb_hit [OF o2 r(2) new_orb_alive]
  note h3 = hitOrb_hit [OF o3 r(3) new_orb_alive]
  note h4 = hitOrb_hit [OF o4 r(4) new_orb_alive]
  have c1: "combo ?s1 = 1" by (simp add: h1 fresh_round_fields COMBO_WINDOW_MS_def del: One_nat_def)
  have c2: "combo ?s2 = 2" by (simp add: h2 h1(2) c1 COMBO_WINDOW_MS_def del: One_nat_def)
  have c3: "combo ?s3 = 3" by (simp add: h3 h2(2) c2 COMBO_WINDOW_MS_def del: One_nat_def)
  have c4: "combo ?s4 = 0" by (simp add: h4 h3(2) c3 COMBO_WINDOW_MS_def del: One_nat_def)
  have p1: "score ?s1 = 20" by (simp add: h1(3) c1 fresh_round_fields BASE_POINTS_def del: One_nat_def)
  have p2: "score ?s2 = 50" by (simp add: h2(3) c2 p1 BASE_POINTS_def del: One_nat_def)
  have p3: "score ?s3 = 90" by (simp add: h3(3) c3 p2 BASE_POINTS_def del: One_nat_def)
  have p4: "score ?s4 = 100" by (simp add: h4(3) c4 p3 BASE_POINTS_def del: One_nat_def)
  have "(0::nat) \<in> set (area fresh_round)" "1 \<in> set (area fresh_round)"
    "2 \<in> set (area fresh_round)" "3 \<in> set (area fresh_round)"
    by (simp_all add: fresh_round_more)
  note e = run_hits [OF this]
  show ?thesis
    unfolding e by (simp add: c1 c2 c3 c4 p1 p2 p3 p4 fresh_round_fields del: One_nat_def)
qed

text \<open>
  The code agrees with the scenario whenever the first hit is read more than the combo
  window after the clock's origin: with the four hits at \<open>T\<close>, \<open>T + 200\<close>,
  \<open>T + 500\<close> and \<open>T + 1700\<close>, \<open>T > 800\<close>, on four different orbs of a freshly
  started round, the combos are 0, 1, 2, 0 and the scores 10, 30, 60, 70.
\<close>

lemma scenario_after_window:
  assumes late: "COMBO_WINDOW_MS < T"
    and dist: "distinct [a, b, c, e]"
    and mem: "a \<in> set (orbs (startGame w h ds s))" "b \<in> set (orbs (startGame w h ds s))"
      "c \<in> set (orbs (startGame w h ds s))" "e \<in> set (orbs (startGame w h ds s))"
  shows "combo (run [Hit a T] (startGame w h ds s)) = 0
   \<and> combo (run [Hit a T, Hit b (T + 200)] (startGame w h ds s)) = 1
   \<and> combo (run [Hit a T, Hit b (T + 200), Hit c (T + 500)] (startGame w h ds s)) = 2
   \<and> combo (run [Hit a T, Hit b (T + 200), Hit c (T + 500), Hit e (T + 1700)] (startGame w h ds s)) = 0
   \<and> score (run [Hit a T] (startGame w h ds s)) = 10
   \<and> score (run [Hit a T, Hit b (T + 200)] (startGame w h ds s)) = 30
   \<and> score (run [Hit a T, Hit b (T + 200), Hit c (T + 500)] (startGame w h ds s)) = 60
   \<and> score (run [Hit a T, Hit b (T + 200), Hit c (T + 500), Hit e (T + 1700)] (startGame w h ds s)) = 70"
proof -
  let ?s0 = "startGame w h ds s"
  let ?s1 = "hitOrb a T ?s0"
  let ?s2 = "hitOrb b (T + 200) ?s1"
  let ?s3 = "hitOrb c (T + 500) ?s2"
  let ?s4 = "hitOrb e (T + 1700) ?s3"
  obtain oa where o1: "store ?s0 a = Some oa" "alive oa" using startGame_orb [OF mem(1)] by blast
  obtain ob where ob: "store ?s0 b = Some ob" "alive ob" using startGame_orb [OF mem(2)] by blast
  obtain oc where oc: "store ?s0 c = Some oc" "alive oc" using startGame_orb [OF mem(3)] by blast
  obtain oe where oe: "store ?s0 e = Some oe" "alive oe" using startGame_orb [OF mem(4)] by blast
  have o2: "store ?s1 b = Some ob" using dist ob by (simp add: hitOrb_store_other)
  have o3: "store ?s2 c = Some oc" using dist oc by (simp add: hitOrb_store_other)
  have o4: "store ?s3 e = Some oe" using dist oe by (simp add: hitOrb_store_other)
  have r: "running ?s0" "running ?s1" "running ?s2" "running ?s3"
    by (simp_all add: hitOrb_fields startGame_fields)
  note h1 = hitOrb_hit [OF o1(1) r(1) o1(2)]
  note h2 = hitOrb_hit [OF o2 r(2) ob(2)]
  note h3 = hitOrb_hit [OF o3 r(3) oc(2)]
  note h4 = hitOrb_hit [OF o4 r(4) oe(2)]
  have c1: "combo ?s1 = 0" using late by (simp add: h1 startGame_fields)
  have c2: "combo ?s2 = 1" by (simp add: h2 h1(2) c1 COMBO_WINDOW_MS_def)
  have c3: "combo ?s3 = 2" by (simp add: h3 h2(2) c2 COMBO_WINDOW_MS_def)
  have c4: "combo ?s4 = 0" by (simp add: h4 h3(2) c3 COMBO_WINDOW_MS_def)
  have p1: "score ?s1 = 10" by (simp add: h1(3) c1 startGame_fields BASE_POINTS_def)
  have p2: "score ?s2 = 30" by (simp add: h2(3) c2 p1 BASE_POINTS_def)
  have p3: "score ?s3 = 60" by (simp add: h3(3) c3 p2 BASE_POINTS_def)
  have p4: "score ?s4 = 70" by (simp add: h4(3) c4 p3 BASE_POINTS_def)
  note e = run_hits [OF mem [THEN startGame_orbs_in_area]]
  show ?thesis
    unfolding e by (simp add: c1 c2 c3 c4 p1 p2 p3 p4)
qed

lemma scenario_after_window_example:
  "COMBO_WINDOW_MS < 1000 \<and> distinct [0, 1, 2, 3::nat]
   \<and> 0 \<in> set (orbs fresh_round) \<and> 1 \<in> set (orbs fresh_round)
   \<and> 2 \<in> set (orbs fresh_round) \<and> 3 \<in> set (orbs fresh_round)
   \<and> combo (run [Hit 0 1000] fresh_round) = 0
   \<and> combo (run [Hit 0 1000, Hit 1 1200] fresh_round) = 1
   \<and> combo (run [Hit 0 1000, Hit 1 1200, Hit 2 1500] fresh_round) = 2
   \<and> combo (run [Hit 0 1000, Hit 1 1200, Hit 2 1500, Hit 3 2700] fresh_round) = 0
   \<and> score (run [Hit 0 1000] fresh_round) = 10
   \<and> score (run [Hit 0 1000, Hit 1 1200] fresh_round) = 30
   \<and> score (run [Hit 0 1000, Hit 1 1200, Hit 2 1500] fresh_round) = 60
   \<and> score (run [Hit 0 1000, Hit 1 1200, Hit 2 1500, Hit 3 2700] fresh_round) = 70"
proof -
  have m: "0 \<in> set (orbs fresh_round)" "1 \<in> set (orbs fresh_round)"
    "2 \<in> set (orbs fresh_round)" "3 \<in> set (orbs fresh_round)"
    by (simp_all add: fresh_round_fields)
  have w: "COMBO_WINDOW_MS < 1000" by (simp add: COMBO_WINDOW_MS_def)
  have d: "distinct [0, 1, 2, 3::nat]" by simp
  show ?thesis
    using scenario_after_window [OF w d m [unfolded fresh_round_def], folded fresh_round_def] m w
    by (simp del: One_nat_def)
qed

section \<open>Best score\<close>

text \<open>
  Claim C7. When a round ends with a score strictly greater than the best score, the best
  score (the variable and the stored value) becomes exactly that score; when the score is
  less than or equal to the best score, both are left as they were.
\<close>

theorem endGame_best:
  "(best s < score s \<longrightarrow> best (endGame s) = score s \<and> storage (endGame s) = Some (score s))
   \<and> (score s \<le> best s \<longrightarrow> best (endGame s) = best s \<and> storage (endGame s) = storage s)"
  by (simp add: endGame_def clearGame_def Let_def)

theorem endGame_best_witness:
  "best (hitOrb 0 1000 fresh_round) < score (hitOrb 0 1000 fresh_round)
   \<and> best (endGame (hitOrb 0 1000 fresh_round)) = 10
   \<and> storage (endGame (hitOrb 0 1000 fresh_round)) = Some 10
   \<and> score (endGame (hitOrb 0 1000 fresh_round)) \<le> best (endGame (hitOrb 0 1000 fresh_round))
   \<and> best (endGame (endGame (hitOrb 0 1000 fresh_round))) = 10
   \<and> storage (endGame (endGame (hitOrb 0 1000 fresh_round))) = Some 10"
  using endGame_best [of "hitOrb 0 1000 fresh_round"]
    endGame_best [of "endGame (hitOrb 0 1000 fresh_round)"]
  by (simp add: fresh_round_orb fresh_round_fields new_orb_alive hitOrb_ok endGame_fields
        COMBO_WINDOW_MS_def BASE_POINTS_def)

section \<open>Guards\<close>

text \<open>
  The guards of lines 81 and 111: activating an orb while no round is running, activating
  an orb that is already inactive, and running a delayed respawn callback while no round
  is running each return the state they were given, so score, combo, last-hit time, the
  orb set and the best score are unchanged. The guarded paths contain no statement that
  can throw, so the model has no error result.
\<close>

lemma guarded_noops:
  "(\<not> running s \<longrightarrow> hitOrb r t s = s)
   \<and> (\<forall>ob. store s r = Some ob \<and> \<not> alive ob \<longrightarrow> hitOrb r t s = s)
   \<and> (\<not> running s \<longrightarrow> respawn r d s = s)"
  by (auto simp: hitOrb_def respawn_def split: option.splits)

lemma guarded_noops_example:
  "\<not> running ended_round \<and> hitOrb 0 1100 ended_round = ended_round
   \<and> store (hitOrb 0 1000 fresh_round) 0 = Some ((new_orb False 400 300 sample_draw)\<lparr>alive := False\<rparr>)
   \<and> \<not> alive ((new_orb False 400 300 sample_draw)\<lparr>alive := False\<rparr>)
   \<and> hitOrb 0 1100 (hitOrb 0 1000 fresh_round) = hitOrb 0 1000 fresh_round
   \<and> respawn 0 sample_draw ended_round = ended_round"
proof -
  have idle: "\<not> running ended_round"
    by (simp add: ended_round_def endGame_fields)
  have dead: "store (hitOrb 0 1000 fresh_round) 0
      = Some ((new_orb False 400 300 sample_draw)\<lparr>alive := False\<rparr>)"
    by (simp add: hitOrb_store_same fresh_round_orb fresh_round_fields new_orb_alive)
  show ?thesis
    using idle dead guarded_noops [of ended_round 0 1100 sample_draw]
      guarded_noops [of "hitOrb 0 1000 fresh_round" 0 1100 sample_draw]
    by simp
qed

text \<open>
  Claim C8 fails on the code for the delayed respawn callback. The callback tests the
  running flag when it fires, not the round it was scheduled in: after the round of the
  hit has ended, and a new round has been started before the timeout, the callback of
  the ended round finds the flag set again and adds an orb to the new round's array
  (the same missed case as in claim C2). Here the hit falls 100 ms before the end of the
  round; the round ends, the start control is used again, and then the timeout fires:
  it turns the orb set \<open>[6..11]\<close> into \<open>[6..12]\<close>.
\<close>

theorem respawn_after_round_end_adds_orb:
  "\<not> running hit_round_ended \<and> pending hit_round_ended = [0]
   \<and> restarted_round = fire (Play 400 300 (\<lambda>_. sample_draw)) hit_round_ended
   \<and> running restarted_round \<and> pending restarted_round = [0]
   \<and> orbs restarted_round = [6, 7, 8, 9, 10, 11]
   \<and> orbs (fire (Respawn 0 sample_draw) restarted_round) = [6, 7, 8, 9, 10, 11, 12]
   \<and> fire (Respawn 0 sample_draw) restarted_round \<noteq> restarted_round"
proof -
  let ?ds = "\<lambda>_::nat. sample_draw"
  let ?s2 = "fresh_round\<lparr>timeLeft := 1\<rparr>"
  let ?s3 = "hitOrb 0 24900 ?s2"
  have t19: "run (replicate 19 Tick) fresh_round = ?s2"
    using run_ticks [of fresh_round 19] by (simp add: fresh_round_more)
  have hit: "fire (Hit 0 24900) ?s2 = ?s3"
    by (simp add: fresh_round_more)
  have "store ?s2 0 = Some (new_orb False 400 300 sample_draw)"
    by (simp add: fresh_round_orb)
  then have p3: "pending ?s3 = [0]"
    by (simp add: hitOrb_ok fresh_round_fields new_orb_alive)
  have f3: "timerId ?s3" "timeLeft ?s3 = 1" "next_ref ?s3 = 6"
    by (simp_all add: hitOrb_fields fresh_round_more fresh_round_fields)
  have tk: "fire Tick ?s3 = tick ?s3"
    using f3 by simp
  have ended: "hit_round_ended = tick ?s3"
    unfolding hit_round_ended_def run_append run_Cons run_Nil fresh_round_start t19 hit tk ..
  have f4: "\<not> running hit_round_ended" "pending hit_round_ended = [0]"
      "next_ref hit_round_ended = 6"
    using f3 p3 by (simp_all add: ended tick_fields)
  have f5: "running restarted_round" "pending restarted_round = [0]"
      "next_ref restarted_round = 12" "orbs restarted_round = [6..<12]"
    using f4 by (simp_all add: restarted_round_def startGame_fields ORB_COUNT_def)
  have f6: "orbs (fire (Respawn 0 sample_draw) restarted_round) = [6..<12] @ [12]"
    using f5 by (simp add: respawn_fields)
  have ne: "fire (Respawn 0 sample_draw) restarted_round \<noteq> restarted_round"
  proof
    assume "fire (Respawn 0 sample_draw) restarted_round = restarted_round"
    then have "orbs (fire (Respawn 0 sample_draw) restarted_round) = orbs restarted_round"
      by simp
    then show False unfolding f6 f5(4) by simp
  qed
  have pl: "restarted_round = fire (Play 400 300 ?ds) hit_round_ended"
    using f4 by (simp add: restarted_round_def)
  show ?thesis
    using f4(1,2) f5(1,2,4) f6 ne pl by (simp add: upt_rec)
qed

section \<open>Restarting a round\<close>

lemma fresh_from_fire: "fresh_from n s \<Longrightarrow> fresh_from n (fire e s)"
proof (cases e)
  case (Play w h ds)
  assume "fresh_from n s"
  then show ?thesis using Play
    by (auto simp: fresh_from_def startGame_fields)
next
  case (Hit r t)
  assume "fresh_from n s"
  then show ?thesis using Hit by (simp add: fresh_from_def hitOrb_fields)
next
  case (Respawn r d)
  assume "fresh_from n s"
  then show ?thesis using Respawn
    by (auto simp: fresh_from_def respawn_fields dest: notin_set_remove1)
next
  case (Frame ts)
  assume "fresh_from n s"
  then show ?thesis using Frame by (simp add: fresh_from_def step_fields)
next
  case Tick
  assume "fresh_from n s"
  then show ?thesis using Tick by (simp add: fresh_from_def tick_fields)
next
  case (Resize w h)
  assume "fresh_from n s"
  then show ?thesis using Resize by (simp add: fresh_from_def resize_fields)
qed

lemma fresh_from_run: "fresh_from n s \<Longrightarrow> fresh_from n (run es s)"
  by (induction es arbitrary: s) (simp_all add: run_Nil run_Cons fresh_from_fire)

lemma fresh_from_startGame: "fresh_from (next_ref s) (startGame w h ds s)"
  by (simp add: fresh_from_def startGame_fields)

lemma refs_below_startGame:
  assumes "refs_below s"
  shows "refs_below (startGame w h ds s)"
proof -
  have "r < next_ref s + ORB_COUNT" if "r \<in> set (pending s) \<union> set (area s)" for r
    using assms that by (auto simp: refs_below_def intro: trans_less_add1)
  then show ?thesis
    by (auto simp: refs_below_def startGame_fields startGame_area set_fold_removeAll)
qed

lemma refs_below_hitOrb: "refs_below s \<Longrightarrow> r < next_ref s \<Longrightarrow> refs_below (hitOrb r t s)"
  using hitOrb_pending [of r t s] by (auto simp: refs_below_def hitOrb_fields)

lemma refs_below_fire: "refs_below s \<Longrightarrow> refs_below (fire e s)"
proof (cases e)
  case (Play w h ds)
  assume "refs_below s"
  then show ?thesis using Play by (simp add: refs_below_startGame)
next
  case (Hit r t)
  assume "refs_below s"
  then show ?thesis using Hit hitOrb_pending [of r t s]
    by (auto simp: refs_below_def hitOrb_fields)
next
  case (Respawn r d)
  assume "refs_below s"
  then show ?thesis using Respawn
    by (auto simp: refs_below_def respawn_fields respawn_area less_Suc_eq
          dest: set_remove1_subset [THEN subsetD])
next
  case (Frame ts)
  assume "refs_below s"
  then show ?thesis using Frame by (simp add: refs_below_def step_fields)
next
  case Tick
  assume "refs_below s"
  then show ?thesis using Tick tick_area [of s]
    by (auto simp: refs_below_def tick_fields split: if_splits)
next
  case (Resize w h)
  assume "refs_below s"
  then show ?thesis using Resize by (simp add: refs_below_def resize_fields)
qed

lemma refs_below_init: "refs_below (init pr st w h)"
  by (simp add: refs_below_def init_def)

lemma refs_below_run: "refs_below s \<Longrightarrow> refs_below (run es s)"
  by (induction es arbitrary: s) (simp_all add: run_Nil run_Cons refs_below_fire)

lemma refs_below_fresh_round: "refs_below fresh_round"
  unfolding fresh_round_def by (rule refs_below_startGame [OF refs_below_init])

text \<open>
  Claim C9. Invoking round start, also while a round is in progress, resets score, combo
  and the last-hit reference to 0, and the orb set afterwards is exactly the six freshly
  created orbs; whatever events follow, every orb in the array was created after the
  restart: no orb that was in the array or had a respawn scheduled before the restart is
  ever in the array again (a respawn scheduled earlier creates a new orb, it does not
  bring the old one back).
\<close>

theorem restart_resets:
  assumes "refs_below s"
  shows "score (startGame w h ds s) = 0 \<and> combo (startGame w h ds s) = 0
    \<and> lastHitTime (startGame w h ds s) = 0 \<and> running (startGame w h ds s)
    \<and> orbs (startGame w h ds s) = [next_ref s ..< next_ref s + ORB_COUNT]
    \<and> (\<forall>r \<in> set (orbs (startGame w h ds s)).
          store (startGame w h ds s) r
            = Some (new_orb (prefersReduced s) w h (ds (r - next_ref s))))
    \<and> (\<forall>es. \<forall>r \<in> set (orbs (run es (startGame w h ds s))).
          next_ref s \<le> r \<and> r \<notin> set (orbs s) \<and> r \<notin> set (pending s))"
proof -
  have later: "next_ref s \<le> r" if "r \<in> set (orbs (run es (startGame w h ds s)))" for es r
    using fresh_from_run [OF fresh_from_startGame, of s es w h ds] that
    by (simp add: fresh_from_def)
  have "next_ref s \<le> r \<and> r \<notin> set (orbs s) \<and> r \<notin> set (pending s)"
    if "r \<in> set (orbs (run es (startGame w h ds s)))" for es r
  proof -
    have "q < next_ref s" if "q \<in> set (orbs s) \<union> set (pending s)" for q
      using assms that by (auto simp: refs_below_def)
    then show ?thesis using later [OF that] by fastforce
  qed
  then show ?thesis
    by (simp add: startGame_fields startGame_store)
qed

theorem restart_resets_witness:
  "refs_below (hitOrb 0 1000 fresh_round)
   \<and> score (hitOrb 0 1000 fresh_round) = 10
   \<and> pending (hitOrb 0 1000 fresh_round) = [0]
   \<and> score (startGame 400 300 (\<lambda>_. sample_draw) (hitOrb 0 1000 fresh_round)) = 0
   \<and> combo (startGame 400 300 (\<lambda>_. sample_draw) (hitOrb 0 1000 fresh_round)) = 0
   \<and> lastHitTime (startGame 400 300 (\<lambda>_. sample_draw) (hitOrb 0 1000 fresh_round)) = 0
   \<and> orbs (startGame 400 300 (\<lambda>_. sample_draw) (hitOrb 0 1000 fresh_round)) = [6, 7, 8, 9, 10, 11]
   \<and> store (startGame 400 300 (\<lambda>_. sample_draw) (hitOrb 0 1000 fresh_round)) 6
        = Some (new_orb False 400 300 sample_draw)
   \<and> 0 \<notin> set (orbs (run [Respawn 0 sample_draw]
          (startGame 400 300 (\<lambda>_. sample_draw) (hitOrb 0 1000 fresh_round))))"
proof -
  let ?m = "hitOrb 0 1000 fresh_round"
  let ?s = "startGame 400 300 (\<lambda>_. sample_draw) ?m"
  have below: "refs_below ?m"
    by (simp add: refs_below_hitOrb refs_below_fresh_round fresh_round_fields)
  have h: "score ?m = 10" "pending ?m = [0]"
    using hitOrb_ok [of fresh_round 0 "new_orb False 400 300 sample_draw" 1000]
    by (simp_all add: fresh_round_orb fresh_round_fields new_orb_alive
          COMBO_WINDOW_MS_def BASE_POINTS_def)
  have nx: "next_ref ?m = 6" "prefersReduced ?m = False"
    by (simp_all add: hitOrb_fields fresh_round_def startGame_fields init_def ORB_COUNT_def)
  note r = restart_resets [OF below, of 400 300 "\<lambda>_. sample_draw"]
  have "0 \<notin> set (orbs (run [Respawn 0 sample_draw] ?s))"
  proof
    assume "0 \<in> set (orbs (run [Respawn 0 sample_draw] ?s))"
    then have "next_ref ?m \<le> 0" using r by blast
    then show False by (simp add: nx)
  qed
  then show ?thesis
    using below h r by (simp add: nx ORB_COUNT_def upt_rec)
qed

section \<open>The number of orbs\<close>

text \<open>
  Claim C2 fails on the code. The respawn callback pushes a new orb whether or not it
  found the hit orb in the array (lines 114--116), and it is only guarded by the running
  flag: when the round of the hit has ended and a new round has started before the
  callback fires, the new round has seven orbs instead of \<open>ORB_COUNT\<close>.
\<close>

theorem stale_respawn_leaks:
  "running (run leak_trace (init False None 400 300))
   \<and> orbs (run leak_trace (init False None 400 300)) = [6, 7, 8, 9, 10, 11, 12]
   \<and> length (orbs (run leak_trace (init False None 400 300))) = ORB_COUNT + 1"
proof -
  let ?ds = "\<lambda>_::nat. sample_draw"
  let ?s2 = "fresh_round\<lparr>timeLeft := 1\<rparr>"
  let ?s3 = "hitOrb 0 24900 ?s2"
  let ?s4 = "tick ?s3"
  let ?s5 = "startGame 400 300 ?ds ?s4"
  let ?s6 = "respawn 0 sample_draw (?s5\<lparr>pending := remove1 0 (pending ?s5)\<rparr>)"
  have t19: "run (replicate 19 Tick) fresh_round = ?s2"
    using run_ticks [of fresh_round 19] by (simp add: fresh_round_more)
  have hit: "fire (Hit 0 24900) ?s2 = ?s3"
    by (simp add: fresh_round_more)
  have o: "store ?s2 0 = Some (new_orb False 400 300 sample_draw)"
    by (simp add: fresh_round_orb)
  have p3: "pending ?s3 = [0]"
    using o by (simp add: hitOrb_ok fresh_round_fields new_orb_alive)
  have f3: "timerId ?s3" "timeLeft ?s3 = 1" "next_ref ?s3 = 6"
    by (simp_all add: hitOrb_fields fresh_round_more fresh_round_fields)
  have tk: "fire Tick ?s3 = ?s4"
    using f3 by simp
  have f4: "\<not> running ?s4" "pending ?s4 = [0]" "next_ref ?s4 = 6"
    using f3 p3 by (simp_all add: tick_fields)
  have pl: "fire (Play 400 300 ?ds) ?s4 = ?s5"
    using f4 by simp
  have f5: "running ?s5" "pending ?s5 = [0]" "next_ref ?s5 = 12" "orbs ?s5 = [6..<12]"
    using f4 by (simp_all add: startGame_fields ORB_COUNT_def)
  have rs: "fire (Respawn 0 sample_draw) ?s5 = ?s6"
    using f5 by simp
  have f6: "running ?s6" "orbs ?s6 = [6..<12] @ [12]"
    using f5 by (simp_all add: respawn_fields)
  have "run leak_trace (init False None 400 300) = ?s6"
    unfolding leak_trace_def run_append run_Cons run_Nil fresh_round_start t19 hit tk pl rs ..
  then show ?thesis
    using f6 by (simp add: ORB_COUNT_def upt_rec)
qed

lemma settled_startGame:
  assumes "settled s" and "pending s = []"
  shows "settled (startGame w h ds s)"
  using assms
  by (auto simp: settled_def startGame_fields startGame_area set_fold_removeAll)

lemma settled_hitOrb:
  assumes "settled s" and "r \<in> set (area s)"
  shows "settled (hitOrb r t s)"
proof (cases "running s \<and> (\<exists>ob. store s r = Some ob \<and> alive ob)")
  case False
  then have "hitOrb r t s = s" by (auto simp: hitOrb_def split: option.splits)
  then show ?thesis using assms(1) by simp
next
  case True
  then obtain ob where ob: "store s r = Some ob" "alive ob" and run: "running s" by blast
  have mem: "r \<in> set (orbs s)" using assms by (auto simp: settled_def)
  have new: "r \<notin> set (pending s)"
    using assms(1) run ob by (auto simp: settled_def)
  have pend: "pending (hitOrb r t s) = pending s @ [r]"
    using ob run by (simp add: hitOrb_ok)
  have dead: "\<exists>ob'. store (hitOrb r t s) q = Some ob' \<and> \<not> alive ob'"
    if "q \<in> set (pending s @ [r])" for q
  proof (cases "q = r")
    case True
    then show ?thesis using ob run by (simp add: hitOrb_store_same)
  next
    case False
    then show ?thesis
      using that assms(1) run by (auto simp: settled_def hitOrb_store_other)
  qed
  show ?thesis
    unfolding settled_def hitOrb_fields pend
    using assms(1) run new mem dead by (auto simp: settled_def)
qed

lemma settled_respawn:
  assumes "settled s" and "refs_below s" and "r \<in> set (pending s)"
  shows "settled (respawn r d (s\<lparr>pending := remove1 r (pending s)\<rparr>))"
proof (cases "running s")
  case False
  then show ?thesis using assms(1) by (simp add: respawn_idle settled_def)
next
  case True
  let ?s = "s\<lparr>pending := remove1 r (pending s)\<rparr>"
  let ?t = "respawn r d ?s"
  have inv: "length (orbs s) = ORB_COUNT" "distinct (pending s)"
      "\<And>q. q \<in> set (pending s) \<Longrightarrow> q \<in> set (orbs s) \<and> (\<exists>ob. store s q = Some ob \<and> \<not> alive ob)"
    and sub: "set (area s) \<subseteq> set (orbs s)"
    using assms(1) True by (auto simp: settled_def)
  have rin: "r \<in> set (orbs s)" using inv(3) assms(3) by blast
  have f: "orbs ?t = remove1 r (orbs s) @ [next_ref s]" "pending ?t = remove1 r (pending s)"
      "area ?t = removeAll r (area s) @ [next_ref s]" "running ?t"
      "store ?t = (store s)(next_ref s \<mapsto> new_orb (prefersReduced s) (bounds_w s) (bounds_h s) d)"
    using True by (simp_all add: respawn_fields respawn_area respawn_store)
  have len: "length (orbs ?t) = ORB_COUNT"
    using rin inv(1) length_pos_if_in_set [OF rin] by (simp add: f length_remove1)
  have ar: "set (area ?t) \<subseteq> set (orbs ?t)"
  proof
    fix q assume "q \<in> set (area ?t)"
    then consider "q = next_ref s" | "q \<in> set (area s)" "q \<noteq> r"
      by (auto simp: f)
    then show "q \<in> set (orbs ?t)"
    proof cases
      case 1
      then show ?thesis by (simp add: f)
    next
      case 2
      then have "q \<in> set (orbs s)" using sub by blast
      then show ?thesis using 2 by (simp add: f)
    qed
  qed
  have pd: "q \<in> set (orbs ?t) \<and> (\<exists>ob. store ?t q = Some ob \<and> \<not> alive ob)"
    if "q \<in> set (pending ?t)" for q
  proof -
    have q: "q \<in> set (pending s)" "q \<noteq> r"
      using that inv(2) by (auto simp: f dest: set_remove1_subset [THEN subsetD])
    then have "q < next_ref s" using assms(2) by (auto simp: refs_below_def)
    then show ?thesis using inv(3) [OF q(1)] q(2) by (auto simp: f)
  qed
  show ?thesis
    unfolding settled_def using len ar pd inv(2) by (auto simp: f(2))
qed

lemma settled_store:
  assumes "settled s" and "orbs t = orbs s" and "area t = area s" and "pending t = pending s"
    and "running t = running s"
    and "\<And>r ob. store s r = Some ob \<Longrightarrow> \<exists>ob'. store t r = Some ob' \<and> alive ob' = alive ob"
  shows "settled t"
  using assms(1) assms(6) unfolding settled_def assms(2-5) by fastforce

lemma settled_step:
  assumes "settled s"
  shows "settled (step ts s)"
proof (rule settled_store [OF assms])
  fix r ob assume "store s r = Some ob"
  then show "\<exists>ob'. store (step ts s) r = Some ob' \<and> alive ob' = alive ob"
    using alive_fold_update_at [of "step_orb (bounds_w s) (bounds_h s) (frame_dt ts (lastTs s))"
        "store s" r ob "orbs s"]
    by (simp add: step_store_eq step_orb_alive)
qed (simp_all add: step_fields)

lemma settled_resize:
  assumes "settled s"
  shows "settled (resize w h s)"
proof (rule settled_store [OF assms])
  fix r ob assume "store s r = Some ob"
  then show "\<exists>ob'. store (resize w h s) r = Some ob' \<and> alive ob' = alive ob"
    using alive_fold_update_at [of "clamp_orb w h" "store s" r ob "orbs s"]
    by (simp add: resize_store_eq clamp_orb_alive)
qed (simp_all add: resize_fields)

lemma settled_tick: "settled s \<Longrightarrow> settled (tick s)"
  by (auto simp: settled_def tick_def Let_def endGame_def clearGame_def set_fold_removeAll)

lemma calm_Cons: "calm (e # es) s \<Longrightarrow> calm [e] s \<and> calm es (fire e s)"
  by (cases e) simp_all

lemma settled_fire:
  assumes "settled s" and "refs_below s" and "calm [e] s"
  shows "settled (fire e s)"
proof (cases e)
  case (Play w h ds)
  then show ?thesis using assms by (simp add: settled_startGame)
next
  case (Hit r t)
  then show ?thesis using assms by (simp add: settled_hitOrb)
next
  case (Respawn r d)
  then show ?thesis using assms by (simp add: settled_respawn)
next
  case (Frame ts)
  have "settled (s\<lparr>raf := False\<rparr>)" using assms(1) by (simp add: settled_def)
  then show ?thesis using Frame assms(1) by (simp add: settled_step)
next
  case Tick
  then show ?thesis using assms by (simp add: settled_tick)
next
  case (Resize w h)
  then show ?thesis using assms by (simp add: settled_resize)
qed

lemma settled_run:
  "settled s \<Longrightarrow> refs_below s \<Longrightarrow> calm es s \<Longrightarrow> settled (run es s)"
proof (induction es arbitrary: s)
  case Nil
  then show ?case by (simp add: run_Nil)
next
  case (Cons e es)
  have c: "calm [e] s" "calm es (fire e s)" using calm_Cons [OF Cons.prems(3)] by simp_all
  have "settled (fire e s)" "refs_below (fire e s)"
    using Cons.prems c(1) by (simp_all add: settled_fire refs_below_fire)
  then show ?case using Cons.IH c(2) by (simp add: run_Cons)
qed

text \<open>
  Without a start while a respawn is still scheduled, the count is the configured one:
  every hit is followed by the removal of the hit orb and the insertion of one new orb.
\<close>

lemma orb_count_without_stale_respawn:
  assumes "calm es (init pr st w h)" and "running (run es (init pr st w h))"
  shows "length (orbs (run es (init pr st w h))) = ORB_COUNT"
proof -
  have "settled (init pr st w h)" by (simp add: settled_def init_def)
  then have "settled (run es (init pr st w h))"
    using assms(1) by (intro settled_run refs_below_init)
  then show ?thesis using assms(2) by (simp add: settled_def)
qed

section \<open>Bouncing\<close>

text \<open>
  What the four statements of lines 133--136 do to an alive orb on a surface of at least
  24 px (twice the margin): when the moved x coordinate is beyond a vertical edge, x is
  clamped to that margin and \<open>vx\<close> is made to point away from the edge with its
  absolute value unchanged; otherwise x is the moved coordinate and \<open>vx\<close> is
  unchanged; the same holds for y and \<open>vy\<close>. For an orb that lay within the padded
  bounds and a time step that is not negative this is a change of sign.
\<close>

lemma frame_bounce_forced:
  assumes "running s" and "distinct (orbs s)" and "r \<in> set (orbs s)"
    and "store s r = Some ob" and "alive ob"
    and "24 \<le> bounds_w s" and "24 \<le> bounds_h s"
  shows "let dt = frame_dt ts (lastTs s); xm = x ob + vx ob * dt; ym = y ob + vy ob * dt in
         \<exists>ob'. store (step ts s) r = Some ob'
       \<and> (xm < 12 \<longrightarrow> x ob' = 12 \<and> vx ob' = \<bar>vx ob\<bar>)
       \<and> (bounds_w s - 12 < xm \<longrightarrow> x ob' = bounds_w s - 12 \<and> vx ob' = - \<bar>vx ob\<bar>)
       \<and> (12 \<le> xm \<and> xm \<le> bounds_w s - 12 \<longrightarrow> x ob' = xm \<and> vx ob' = vx ob)
       \<and> (ym < 12 \<longrightarrow> y ob' = 12 \<and> vy ob' = \<bar>vy ob\<bar>)
       \<and> (bounds_h s - 12 < ym \<longrightarrow> y ob' = bounds_h s - 12 \<and> vy ob' = - \<bar>vy ob\<bar>)
       \<and> (12 \<le> ym \<and> ym \<le> bounds_h s - 12 \<longrightarrow> y ob' = ym \<and> vy ob' = vy ob)
       \<and> (in_bounds (bounds_w s) (bounds_h s) ob \<and> 0 \<le> dt \<longrightarrow>
            (xm < 12 \<or> bounds_w s - 12 < xm \<longrightarrow> vx ob' = - vx ob)
          \<and> (ym < 12 \<or> bounds_h s - 12 < ym \<longrightarrow> vy ob' = - vy ob))"
proof -
  let ?dt = "frame_dt ts (lastTs s)"
  let ?w = "bounds_w s" and ?h = "bounds_h s"
  let ?ob = "step_orb ?w ?h ?dt ob"
  note v = step_orb_velocity [OF assms(5-7), of ?dt]
  note p = step_orb_position [OF assms(5-7), of ?dt]
  have st: "store (step ts s) r = Some ?ob"
    using assms(1-4) by (simp add: step_store)
  have inv: "(x ob + vx ob * ?dt < 12 \<or> ?w - 12 < x ob + vx ob * ?dt \<longrightarrow> vx ?ob = - vx ob)
      \<and> (y ob + vy ob * ?dt < 12 \<or> ?h - 12 < y ob + vy ob * ?dt \<longrightarrow> vy ?ob = - vy ob)"
    if "in_bounds ?w ?h ob" and "0 \<le> ?dt"
  proof -
    note hx = heading_out [of 12 "x ob" "?w - 12" ?dt "vx ob"]
    note hy = heading_out [of 12 "y ob" "?h - 12" ?dt "vy ob"]
    show ?thesis
      using that hx hy assms(6,7) unfolding v in_bounds_def by auto
  qed
  have "(x ob + vx ob * ?dt < 12 \<longrightarrow> x ?ob = 12 \<and> vx ?ob = \<bar>vx ob\<bar>)
      \<and> (?w - 12 < x ob + vx ob * ?dt \<longrightarrow> x ?ob = ?w - 12 \<and> vx ?ob = - \<bar>vx ob\<bar>)
      \<and> (12 \<le> x ob + vx ob * ?dt \<and> x ob + vx ob * ?dt \<le> ?w - 12 \<longrightarrow>
            x ?ob = x ob + vx ob * ?dt \<and> vx ?ob = vx ob)"
    using assms(6) unfolding v p by auto
  moreover have "(y ob + vy ob * ?dt < 12 \<longrightarrow> y ?ob = 12 \<and> vy ?ob = \<bar>vy ob\<bar>)
      \<and> (?h - 12 < y ob + vy ob * ?dt \<longrightarrow> y ?ob = ?h - 12 \<and> vy ?ob = - \<bar>vy ob\<bar>)
      \<and> (12 \<le> y ob + vy ob * ?dt \<and> y ob + vy ob * ?dt \<le> ?h - 12 \<longrightarrow>
            y ?ob = y ob + vy ob * ?dt \<and> vy ?ob = vy ob)"
    using assms(7) unfolding v p by auto
  ultimately show ?thesis
    unfolding Let_def using st inv by blast
qed

lemma distinct_orbs_fire:
  assumes "refs_below s" and "distinct (orbs s)"
  shows "distinct (orbs (fire e s))"
proof (cases e)
  case (Play w h ds)
  then show ?thesis using assms(2) by (simp add: startGame_fields)
next
  case (Hit r t)
  then show ?thesis using assms(2) by (simp add: hitOrb_fields)
next
  case (Respawn r d)
  have "next_ref s \<notin> set (remove1 r (orbs s))"
    using assms(1) by (auto simp: refs_below_def dest: set_remove1_subset [THEN subsetD])
  then show ?thesis using Respawn assms(2) by (simp add: respawn_fields)
next
  case (Frame ts)
  then show ?thesis using assms(2) by (simp add: step_fields)
next
  case Tick
  then show ?thesis using assms(2) by (simp add: tick_fields)
next
  case (Resize w h)
  then show ?thesis using assms(2) by (simp add: resize_fields)
qed

lemma distinct_orbs_run:
  "refs_below s \<Longrightarrow> distinct (orbs s) \<Longrightarrow> distinct (orbs (run es s))"
proof (induction es arbitrary: s)
  case Nil
  then show ?case by (simp add: run_Nil)
next
  case (Cons e es)
  then show ?case by (simp add: run_Cons refs_below_fire distinct_orbs_fire)
qed

text \<open>
  Claim C3. A boundary crossing is a frame update that moves an alive orb from within the
  padded bounds to beyond a margin; the frame timestamps the host passes do not decrease,
  so the time step is not negative. For every such update, with \<open>xm\<close> and \<open>ym\<close> the
  moved coordinates: when \<open>xm\<close> is beyond a vertical edge, x is clamped to that margin
  and \<open>vx\<close>, which pointed towards the edge, changes its sign; when it is not, x is
  \<open>xm\<close> and \<open>vx\<close> is unchanged; and the same for \<open>ym\<close>, y and \<open>vy\<close>. So each
  crossing inverts exactly the velocity component perpendicular to the crossed edge, and
  the other component changes only if its own edge is crossed in the same frame. (The
  array of every reachable state is free of duplicates: \<open>distinct_orbs_run\<close>.)
\<close>

theorem frame_bounce:
  assumes "running s" and "distinct (orbs s)" and "r \<in> set (orbs s)"
    and "store s r = Some ob" and "alive ob"
    and "in_bounds (bounds_w s) (bounds_h s) ob"
    and "\<forall>l. lastTs s = Some l \<longrightarrow> l \<le> ts"
  shows "let dt = frame_dt ts (lastTs s); xm = x ob + vx ob * dt; ym = y ob + vy ob * dt in
         \<exists>ob'. store (step ts s) r = Some ob'
       \<and> (xm < 12 \<longrightarrow> x ob' = 12 \<and> vx ob < 0 \<and> vx ob' = - vx ob)
       \<and> (bounds_w s - 12 < xm \<longrightarrow>
            x ob' = bounds_w s - 12 \<and> 0 < vx ob \<and> vx ob' = - vx ob)
       \<and> (12 \<le> xm \<and> xm \<le> bounds_w s - 12 \<longrightarrow> x ob' = xm \<and> vx ob' = vx ob)
       \<and> (ym < 12 \<longrightarrow> y ob' = 12 \<and> vy ob < 0 \<and> vy ob' = - vy ob)
       \<and> (bounds_h s - 12 < ym \<longrightarrow>
            y ob' = bounds_h s - 12 \<and> 0 < vy ob \<and> vy ob' = - vy ob)
       \<and> (12 \<le> ym \<and> ym \<le> bounds_h s - 12 \<longrightarrow> y ob' = ym \<and> vy ob' = vy ob)"
proof -
  let ?dt = "frame_dt ts (lastTs s)"
  let ?w = "bounds_w s" and ?h = "bounds_h s"
  let ?ob = "step_orb ?w ?h ?dt ob"
  have wide: "24 \<le> ?w" "24 \<le> ?h"
    using assms(6) by (simp_all add: in_bounds_def)
  have dt: "0 \<le> ?dt"
    using assms(7) by (intro frame_dt_nonneg) simp
  note v = step_orb_velocity [OF assms(5) wide, of ?dt]
  note p = step_orb_position [OF assms(5) wide, of ?dt]
  have st: "store (step ts s) r = Some ?ob"
    using assms(1-4) by (simp add: step_store)
  have inside: "12 \<le> x ob" "x ob \<le> ?w - 12" "12 \<le> y ob" "y ob \<le> ?h - 12"
    using assms(6) by (simp_all add: in_bounds_def)
  note hx = heading_out [OF inside(1,2) dt, of "vx ob"]
  note hy = heading_out [OF inside(3,4) dt, of "vy ob"]
  have "(x ob + vx ob * ?dt < 12 \<longrightarrow> x ?ob = 12 \<and> vx ob < 0 \<and> vx ?ob = - vx ob)
      \<and> (?w - 12 < x ob + vx ob * ?dt \<longrightarrow>
            x ?ob = ?w - 12 \<and> 0 < vx ob \<and> vx ?ob = - vx ob)
      \<and> (12 \<le> x ob + vx ob * ?dt \<and> x ob + vx ob * ?dt \<le> ?w - 12 \<longrightarrow>
            x ?ob = x ob + vx ob * ?dt \<and> vx ?ob = vx ob)"
    using wide(1) hx unfolding v p by auto
  moreover have "(y ob + vy ob * ?dt < 12 \<longrightarrow> y ?ob = 12 \<and> vy ob < 0 \<and> vy ?ob = - vy ob)
      \<and> (?h - 12 < y ob + vy ob * ?dt \<longrightarrow>
            y ?ob = ?h - 12 \<and> 0 < vy ob \<and> vy ?ob = - vy ob)
      \<and> (12 \<le> y ob + vy ob * ?dt \<and> y ob + vy ob * ?dt \<le> ?h - 12 \<longrightarrow>
            y ?ob = y ob + vy ob * ?dt \<and> vy ?ob = vy ob)"
    using wide(2) hy unfolding v p by auto
  ultimately show ?thesis
    unfolding Let_def using st by blast
qed

theorem frame_bounce_witness:
  "running edge_round \<and> distinct (orbs edge_round) \<and> 0 \<in> set (orbs edge_round)
   \<and> store edge_round 0 = Some \<lparr>x = 13, y = 85, vx = - (105 / 2), vy = 0, alive = True\<rparr>
   \<and> in_bounds (bounds_w edge_round) (bounds_h edge_round)
        \<lparr>x = 13, y = 85, vx = - (105 / 2), vy = 0, alive = True\<rparr>
   \<and> lastTs edge_round = Some 1000 \<and> (1000::real) \<le> 1032
   \<and> frame_dt 1032 (lastTs edge_round) = 4 / 125
   \<and> (\<exists>ob'. store (step 1032 edge_round) 0 = Some ob' \<and> x ob' = 12 \<and> vx ob' = 105 / 2
          \<and> y ob' = 85 \<and> vy ob' = 0)"
proof -
  let ?ob = "\<lparr>x = 13, y = 85, vx = - (105 / 2), vy = 0, alive = True\<rparr>"
  have inb: "in_bounds (bounds_w edge_round) (bounds_h edge_round) ?ob"
    by (simp add: in_bounds_def edge_round_fields)
  have dt: "frame_dt 1032 (Some 1000) = 4 / 125"
    by (simp add: frame_dt_def)
  have "\<exists>ob'. store (step 1032 edge_round) 0 = Some ob' \<and> x ob' = 12 \<and> vx ob' = 105 / 2
          \<and> y ob' = 85 \<and> vy ob' = 0"
    using frame_bounce [of edge_round 0 ?ob 1032] inb
    by (auto simp: edge_round_fields dt Let_def)
  then show ?thesis
    using inb by (simp add: edge_round_fields dt)
qed

section \<open>Staying inside the padded bounds\<close>

lemma rand_range:
  assumes "0 \<le> u" and "u < 1" and "lo \<le> hi"
  shows "lo \<le> rand lo hi u" and "rand lo hi u \<le> hi"
proof -
  have "0 \<le> u * (hi - lo)" using assms by simp
  then show "lo \<le> rand lo hi u" by (simp add: rand_def)
  have "u * (hi - lo) \<le> 1 * (hi - lo)" using assms by (intro mult_right_mono) simp_all
  then show "rand lo hi u \<le> hi" by (simp add: rand_def)
qed

lemma new_orb_coords:
  "x (new_orb pr w h d) = rand 20 (w - 20) (u_left d)"
  "y (new_orb pr w h d) = rand 20 (h - 20) (u_top d)"
  by (simp_all add: new_orb_def Let_def)

lemma new_orb_in_bounds:
  assumes "40 \<le> w" and "40 \<le> h" and "unit_draw d"
  shows "in_bounds w h (new_orb pr w h d)"
proof -
  have "20 \<le> rand 20 (w - 20) (u_left d)" "rand 20 (w - 20) (u_left d) \<le> w - 20"
    using assms rand_range [of "u_left d" 20 "w - 20"] by (simp_all add: unit_draw_def)
  moreover have "20 \<le> rand 20 (h - 20) (u_top d)" "rand 20 (h - 20) (u_top d) \<le> h - 20"
    using assms rand_range [of "u_top d" 20 "h - 20"] by (simp_all add: unit_draw_def)
  ultimately show ?thesis by (simp add: in_bounds_def new_orb_coords)
qed















section \<open>Constant speed\<close>

lemma fire_store_pres:
  assumes "store s r = Some ob" and "P ob" and "r < next_ref s"
    and dead: "\<And>ob. P ob \<Longrightarrow> P (ob\<lparr>alive := False\<rparr>)"
    and moved: "\<And>dt ob. P ob \<Longrightarrow> P (step_orb (bounds_w s) (bounds_h s) dt ob)"
    and clamped: "\<And>w h ob. e = Resize w h \<Longrightarrow> P ob \<Longrightarrow> P (clamp_orb w h ob)"
  shows "(\<exists>ob'. store (fire e s) r = Some ob' \<and> P ob') \<and> r < next_ref (fire e s)"
proof (cases e)
  case (Play w h ds)
  then show ?thesis
    using assms(1-3) by (simp add: startGame_store_old startGame_fields)
next
  case (Hit q t)
  then show ?thesis
    using assms(1-3) dead hitOrb_store_dead [OF assms(1), of q t]
    by (auto simp: hitOrb_fields)
next
  case (Respawn q d)
  then show ?thesis
    using assms(1-3) by (auto simp: respawn_store respawn_fields)
next
  case (Frame ts)
  let ?s = "s\<lparr>raf := False\<rparr>"
  let ?f = "step_orb (bounds_w s) (bounds_h s) (frame_dt ts (lastTs s))"
  have "\<exists>ob'. fold (update_at ?f) (orbs s) (store s) r = Some ob' \<and> P ob'"
    using fold_update_at_pres [of P ?f "store s" r ob "orbs s"] assms(1,2) moved by blast
  then show ?thesis
    using Frame assms(1-3) by (auto simp: step_store_eq step_fields)
next
  case Tick
  then show ?thesis
    using assms(1-3) by (simp add: tick_fields)
next
  case (Resize w h)
  have "\<exists>ob'. fold (update_at (clamp_orb w h)) (orbs s) (store s) r = Some ob' \<and> P ob'"
    using fold_update_at_pres [of P "clamp_orb w h" "store s" r ob "orbs s"] assms(1,2)
      clamped [OF Resize] by blast
  then show ?thesis
    using Resize assms(3) by (simp add: resize_store_eq resize_fields)
qed

lemma run_store_abs:
  assumes "store s r = Some ob" and "r < next_ref s"
  shows "\<exists>ob'. store (run es s) r = Some ob' \<and> \<bar>vx ob'\<bar> = \<bar>vx ob\<bar> \<and> \<bar>vy ob'\<bar> = \<bar>vy ob\<bar>"
  using assms
proof (induction es arbitrary: s ob)
  case Nil
  then show ?case by (simp add: run_Nil)
next
  case (Cons e es)
  let ?P = "\<lambda>p. \<bar>vx p\<bar> = \<bar>vx ob\<bar> \<and> \<bar>vy p\<bar> = \<bar>vy ob\<bar>"
  have "(\<exists>ob'. store (fire e s) r = Some ob' \<and> ?P ob') \<and> r < next_ref (fire e s)"
    using Cons.prems
    by (intro fire_store_pres [of s r ob ?P]) (simp_all add: step_orb_abs clamp_orb_velocity)
  then obtain ob1 where ob1: "store (fire e s) r = Some ob1" "?P ob1" "r < next_ref (fire e s)"
    by blast
  show ?case
    using Cons.IH [OF ob1(1,3)] ob1(2) by (simp add: run_Cons)
qed

lemma fire_bounds:
  "within_round e \<Longrightarrow> bounds_w (fire e s) = bounds_w s \<and> bounds_h (fire e s) = bounds_h s"
  by (cases e) (simp_all add: hitOrb_fields respawn_fields step_fields tick_fields)

lemma run_store_still:
  assumes "store s r = Some ob" and "r < next_ref s" and "vx ob = 0" and "vy ob = 0"
    and "in_bounds (bounds_w s) (bounds_h s) ob" and "\<forall>e \<in> set es. within_round e"
  shows "\<exists>ob'. store (run es s) r = Some ob' \<and> x ob' = x ob \<and> y ob' = y ob"
  using assms
proof (induction es arbitrary: s ob)
  case Nil
  then show ?case by (simp add: run_Nil)
next
  case (Cons e es)
  let ?P = "\<lambda>p. x p = x ob \<and> y p = y ob \<and> vx p = 0 \<and> vy p = 0"
  have inside: "in_bounds (bounds_w s) (bounds_h s) p" if "?P p" for p
    using that Cons.prems(5) by (simp add: in_bounds_def)
  have round: "within_round e" using Cons.prems(6) by simp
  have "(\<exists>ob'. store (fire e s) r = Some ob' \<and> ?P ob') \<and> r < next_ref (fire e s)"
  proof (intro fire_store_pres [of s r ob ?P])
    show "store s r = Some ob" "r < next_ref s" by (rule Cons.prems)+
    show "?P ob" using Cons.prems by simp
    show "?P (p\<lparr>alive := False\<rparr>)" if "?P p" for p using that by simp
    show "?P (step_orb (bounds_w s) (bounds_h s) dt p)" if "?P p" for dt p
      using that step_orb_still [of p "bounds_w s" "bounds_h s" dt] inside [OF that] by simp
    show "?P (clamp_orb w h p)" if "e = Resize w h" for w h p
      using that round by simp
  qed
  then obtain ob1 where ob1: "store (fire e s) r = Some ob1" "?P ob1" "r < next_ref (fire e s)"
    by blast
  have "in_bounds (bounds_w (fire e s)) (bounds_h (fire e s)) ob1"
    using inside [OF ob1(2)] fire_bounds [OF round, of s] by simp
  then show ?case
    using Cons.IH [OF ob1(1,3)] ob1(2) Cons.prems(6) by (simp add: run_Cons)
qed

lemma speed_new_orb:
  "speed (new_orb pr w h d) = (if pr then 0 else \<bar>rand SPEED_MIN SPEED_MAX (u_speed d)\<bar>)"
proof -
  have "sqrt ((cos a * v)\<^sup>2 + (sin a * v)\<^sup>2) = \<bar>v\<bar>" for a v :: real
  proof -
    have "(cos a * v)\<^sup>2 + (sin a * v)\<^sup>2 = ((cos a)\<^sup>2 + (sin a)\<^sup>2) * v\<^sup>2"
      by (simp only: power_mult_distrib distrib_right)
    also have "\<dots> = v\<^sup>2" by simp
    finally show ?thesis by simp
  qed
  then show ?thesis by (simp add: speed_def new_orb_def Let_def)
qed

lemma speed_abs: "\<bar>vx a\<bar> = \<bar>vx b\<bar> \<Longrightarrow> \<bar>vy a\<bar> = \<bar>vy b\<bar> \<Longrightarrow> speed a = speed b"
proof -
  assume "\<bar>vx a\<bar> = \<bar>vx b\<bar>" "\<bar>vy a\<bar> = \<bar>vy b\<bar>"
  then have "(vx a)\<^sup>2 = (vx b)\<^sup>2" "(vy a)\<^sup>2 = (vy b)\<^sup>2"
    by (metis power2_abs)+
  then show ?thesis by (simp add: speed_def)
qed

text \<open>
  Claim C10, amended. The boundary handling only forces a velocity component to point
  away from the crossed edge, and no other event touches the velocity: whatever events
  follow a spawn, the orb still exists with the absolute values of both velocity
  components, hence the speed, that \<open>makeOrb\<close> gave it. Under reduced motion that speed
  is 0 and both components stay 0; and an orb spawned on a surface of at least 40 px keeps
  its position through all events of the round as long as the surface is not resized.
\<close>

theorem spawn_speed_constant:
  "\<exists>ob'. store (run es (push_orb d s)) (next_ref s) = Some ob'
     \<and> speed ob' = (if prefersReduced s then 0 else \<bar>rand SPEED_MIN SPEED_MAX (u_speed d)\<bar>)
     \<and> \<bar>vx ob'\<bar> = \<bar>vx (new_orb (prefersReduced s) (bounds_w s) (bounds_h s) d)\<bar>
     \<and> \<bar>vy ob'\<bar> = \<bar>vy (new_orb (prefersReduced s) (bounds_w s) (bounds_h s) d)\<bar>
     \<and> (prefersReduced s \<longrightarrow> vx ob' = 0 \<and> vy ob' = 0)
     \<and> (prefersReduced s \<and> 40 \<le> bounds_w s \<and> 40 \<le> bounds_h s \<and> unit_draw d
          \<and> (\<forall>e \<in> set es. within_round e) \<longrightarrow>
            x ob' = x (new_orb (prefersReduced s) (bounds_w s) (bounds_h s) d)
          \<and> y ob' = y (new_orb (prefersReduced s) (bounds_w s) (bounds_h s) d))"
proof -
  let ?new = "new_orb (prefersReduced s) (bounds_w s) (bounds_h s) d"
  let ?s = "push_orb d s"
  have st: "store ?s (next_ref s) = Some ?new" and nx: "next_ref s < next_ref ?s"
    and bd: "bounds_w ?s = bounds_w s" "bounds_h ?s = bounds_h s"
    by (simp_all add: push_orb_eq)
  obtain ob' where ob': "store (run es ?s) (next_ref s) = Some ob'"
      "\<bar>vx ob'\<bar> = \<bar>vx ?new\<bar>" "\<bar>vy ob'\<bar> = \<bar>vy ?new\<bar>"
    using run_store_abs [OF st nx, of es] by blast
  have sp: "speed ob' = (if prefersReduced s then 0 else \<bar>rand SPEED_MIN SPEED_MAX (u_speed d)\<bar>)"
    using speed_abs [OF ob'(2,3)] by (simp add: speed_new_orb)
  have zero: "vx ?new = 0 \<and> vy ?new = 0" if "prefersReduced s"
    using that by (simp add: new_orb_def Let_def)
  have z': "vx ob' = 0 \<and> vy ob' = 0" if "prefersReduced s"
    using zero [OF that] ob'(2,3) by simp
  have still: "x ob' = x ?new \<and> y ob' = y ?new"
    if red: "prefersReduced s" and big: "40 \<le> bounds_w s" "40 \<le> bounds_h s" "unit_draw d"
      and quiet: "\<forall>e \<in> set es. within_round e"
  proof -
    have "in_bounds (bounds_w ?s) (bounds_h ?s) ?new"
      using big by (simp add: bd new_orb_in_bounds)
    then obtain ob2 where "store (run es ?s) (next_ref s) = Some ob2" "x ob2 = x ?new" "y ob2 = y ?new"
      using run_store_still [OF st nx _ _ _ quiet] zero [OF red] by blast
    then show ?thesis using ob'(1) by simp
  qed
  show ?thesis
    using ob'(1) ob'(2,3) sp z' still by blast
qed

theorem spawn_speed_constant_witness:
  "prefersReduced reduced_round \<and> 40 \<le> bounds_w reduced_round \<and> 40 \<le> bounds_h reduced_round
   \<and> unit_draw sample_draw \<and> within_round (Frame 1000) \<and> within_round (Frame 1016)
   \<and> (\<exists>ob'. store (run [Frame 1000, Frame 1016] (push_orb sample_draw reduced_round)) 6 = Some ob'
        \<and> speed ob' = 0 \<and> vx ob' = 0 \<and> vy ob' = 0 \<and> x ob' = 200 \<and> y ob' = 85)"
proof -
  have u: "unit_draw sample_draw"
    by (simp add: unit_draw_def sample_draw_def)
  show ?thesis
    using u spawn_speed_constant [of "[Frame 1000, Frame 1016]" sample_draw reduced_round]
    by (auto simp: reduced_round_fields reduced_orb)
qed

text \<open>
  Claim C10, as stated (``the orb never moves''), fails: the resize handler clamps every
  orb of the array into the new bounds, whatever its velocity. With reduced motion, the
  orb spawned at (200, 85) on the 400 by 300 surface is moved to (88, 85) when the
  surface is resized to 100 by 100.
\<close>

theorem reduced_motion_resize_counterexample:
  "prefersReduced reduced_round \<and> running reduced_round \<and> 0 \<in> set (orbs reduced_round)
   \<and> store reduced_round 0 = Some \<lparr>x = 200, y = 85, vx = 0, vy = 0, alive = True\<rparr>
   \<and> store (resize 100 100 reduced_round) 0
       = Some \<lparr>x = 88, y = 85, vx = 0, vy = 0, alive = True\<rparr>"
proof -
  have "clamp_orb 100 100 \<lparr>x = 200, y = 85, vx = 0, vy = 0, alive = True\<rparr>
      = \<lparr>x = 88, y = 85, vx = 0, vy = 0, alive = True\<rparr>"
    by (simp add: clamp_orb_def clamp_def)
  then show ?thesis
    by (simp add: resize_store_eq fold_update_at_distinct reduced_round_fields reduced_round_orb)
qed

end
